theory Spec2Isabelle
  imports Complex_Main
begin

section \<open>Glyph decluttering: data model\<close>

text \<open>
  JavaScript numbers are modelled as \<^typ>\<open>real\<close> (no rounding, no NaN, no infinities);
  sensor identifiers are the JSON object keys of the data files, hence strings.
  A JavaScript object used as a dictionary is a map; a missing key reads as
  \<open>undefined\<close>, which is \<open>None\<close> here (no sensor is named like a member of
  \<open>Object.prototype\<close>).
\<close>

record glyph =
  sensor :: string
  latitude :: real
  longitude :: real

record sensorBound =
  bsensor :: string
  lat :: real
  lon :: real
  maxRadiusLat :: real
  maxRadiusLon :: real
  radius :: real

record selection =
  filteredOutSensors :: "string list"
  filteredInSensors :: "string list"
  hiddenCountsMap :: "string \<rightharpoonup> nat"

type_synonym matrix = "string \<rightharpoonup> (string \<rightharpoonup> real)"

definition emptySelection :: selection where
  "emptySelection =
     \<lparr>filteredOutSensors = [], filteredInSensors = [], hiddenCountsMap = Map.empty\<rparr>"

section \<open>Vector geometry primitives\<close>

definition isOverlapping :: "sensorBound \<Rightarrow> sensorBound \<Rightarrow> real \<Rightarrow> bool" where
  "isOverlapping a b offsetCoeff =
     (let latDiff = (lat a - lat b) * 111320;
          lonDiff = (lon a - lon b) * 111320 * cos ((lat a + lat b) / 2 * pi / 180);
          dist = sqrt (latDiff * latDiff + lonDiff * lonDiff)
      in dist \<le> (radius a + radius b) * offsetCoeff)"

definition calculateIntersectionArea :: "sensorBound \<Rightarrow> sensorBound \<Rightarrow> real" where
  "calculateIntersectionArea a b =
     (let d = sqrt ((lat a - lat b) ^ 2 + (lon a - lon b) ^ 2)
      in if d \<ge> radius a + radius b then 0
         else if d \<le> \<bar>radius a - radius b\<bar> then pi * (min (radius a) (radius b)) ^ 2
         else
           (let r1 = radius a;
                r2 = radius b;
                part1 = r1 * r1 * arccos ((d * d + r1 * r1 - r2 * r2) / (2 * d * r1));
                part2 = r2 * r2 * arccos ((d * d + r2 * r2 - r1 * r1) / (2 * d * r2));
                part3 = 0.5 * sqrt ((- d + r1 + r2) * (d + r1 - r2) * (d - r1 + r2) * (d + r1 + r2))
            in part1 + part2 - part3))"

section \<open>Pairwise intersection index\<close>

definition toSensorBound :: "real \<Rightarrow> real \<Rightarrow> glyph \<Rightarrow> sensorBound" where
  "toSensorBound offsetCoeff rad d =
     \<lparr>bsensor = sensor d, lat = latitude d, lon = longitude d,
      maxRadiusLat = offsetCoeff * rad / 111320,
      maxRadiusLon = offsetCoeff * rad / (111320 * cos (latitude d * (pi / 180))),
      radius = rad\<rparr>"

definition matrixCell ::
  "real \<Rightarrow> sensorBound list \<Rightarrow> nat \<Rightarrow> nat \<Rightarrow> (string \<rightharpoonup> real) \<Rightarrow> (string \<rightharpoonup> real)" where
  "matrixCell offsetCoeff sbs i j row =
     (if i = j then row
      else
        (let a = sbs ! i; b = sbs ! j
         in if isOverlapping a b offsetCoeff
            then (let area = calculateIntersectionArea a b
                  in if area > 0 then row(bsensor b \<mapsto> area) else row)
            else row))"

definition matrixRow :: "real \<Rightarrow> sensorBound list \<Rightarrow> nat \<Rightarrow> (string \<rightharpoonup> real)" where
  "matrixRow offsetCoeff sbs i =
     fold (matrixCell offsetCoeff sbs i) [0..<length sbs] Map.empty"

definition buildIntersectMatrix :: "real \<Rightarrow> sensorBound list \<Rightarrow> matrix" where
  "buildIntersectMatrix offsetCoeff sbs =
     fold (\<lambda>i m. m(bsensor (sbs ! i) \<mapsto> matrixRow offsetCoeff sbs i)) [0..<length sbs] Map.empty"

text \<open>\<open>intersectMatrix[a]?.[b]\<close>, JavaScript truthiness of a number or \<open>undefined\<close>,
  the operator \<open>x || y\<close> and the idiom \<open>x || 0\<close>.\<close>

definition lookup :: "matrix \<Rightarrow> string \<Rightarrow> string \<Rightarrow> real option" where
  "lookup m a b = (case m a of None \<Rightarrow> None | Some row \<Rightarrow> row b)"

definition truthy :: "real option \<Rightarrow> bool" where
  "truthy v = (case v of None \<Rightarrow> False | Some x \<Rightarrow> x \<noteq> 0)"

definition jsOr :: "real option \<Rightarrow> real option \<Rightarrow> real option" where
  "jsOr a b = (if truthy a then a else b)"

definition orZero :: "real option \<Rightarrow> real" where
  "orZero v = (case v of None \<Rightarrow> 0 | Some x \<Rightarrow> x)"

definition overlaps :: "matrix \<Rightarrow> string \<Rightarrow> string \<Rightarrow> bool" where
  "overlaps m a b = truthy (jsOr (lookup m a b) (lookup m b a))"

section \<open>Greedy declutter selector\<close>

definition totalIntersectionArea :: "matrix \<Rightarrow> string list \<Rightarrow> string \<Rightarrow> real" where
  "totalIntersectionArea m ws s =
     fold (\<lambda>other acc. if s \<noteq> other then acc + orZero (lookup m s other) else acc) ws 0"

definition pickStep ::
  "matrix \<Rightarrow> string list \<Rightarrow> string \<Rightarrow> string option \<times> real \<Rightarrow> string option \<times> real" where
  "pickStep m ws s acc =
     (if totalIntersectionArea m ws s > snd acc
      then (Some s, totalIntersectionArea m ws s) else acc)"

definition pickMax :: "matrix \<Rightarrow> string list \<Rightarrow> string option \<times> real" where
  "pickMax m ws = fold (pickStep m ws) ws (None, - 1)"

definition removeOverlapping :: "matrix \<Rightarrow> string \<Rightarrow> string list \<Rightarrow> string list" where
  "removeOverlapping m maxSensor ws =
     filter (\<lambda>s. s = maxSensor \<or> \<not> overlaps m maxSensor s) ws"

lemma total_unchanged:
  "(\<And>other. other \<in> set xs \<Longrightarrow> other \<noteq> s \<Longrightarrow> orZero (lookup m s other) = 0) \<Longrightarrow>
   fold (\<lambda>other acc. if s \<noteq> other then acc + orZero (lookup m s other) else acc) xs a = a"
  by (induction xs arbitrary: a) auto

lemma total_nonzero:
  assumes "totalIntersectionArea m ws s \<noteq> 0"
  shows "\<exists>other\<in>set ws. other \<noteq> s \<and> truthy (lookup m s other)"
proof (rule ccontr)
  assume "\<not> ?thesis"
  then have "\<And>other. other \<in> set ws \<Longrightarrow> other \<noteq> s \<Longrightarrow> orZero (lookup m s other) = 0"
    by (auto simp: truthy_def orZero_def split: option.splits)
  then have "totalIntersectionArea m ws s = 0"
    unfolding totalIntersectionArea_def by (rule total_unchanged)
  with assms show False by simp
qed

lemma pickFold_inv:
  assumes "fold (pickStep m ws) xs acc = (Some mx, a)"
    and "\<And>s. fst acc = Some s \<Longrightarrow> s \<in> S \<and> snd acc = totalIntersectionArea m ws s"
    and "set xs \<subseteq> S"
  shows "mx \<in> S \<and> a = totalIntersectionArea m ws mx"
  using assms
proof (induction xs arbitrary: acc)
  case Nil
  then show ?case by simp
next
  case (Cons x xs)
  have "fold (pickStep m ws) xs (pickStep m ws x acc) = (Some mx, a)"
    using Cons.prems(1) by simp
  moreover have "\<And>s. fst (pickStep m ws x acc) = Some s \<Longrightarrow>
      s \<in> S \<and> snd (pickStep m ws x acc) = totalIntersectionArea m ws s"
    using Cons.prems(2,3) by (auto simp: pickStep_def split: if_splits)
  moreover have "set xs \<subseteq> S" using Cons.prems(3) by simp
  ultimately show ?case by (rule Cons.IH)
qed

lemma pickMax_Some:
  assumes "pickMax m ws = (Some mx, a)"
  shows "mx \<in> set ws \<and> a = totalIntersectionArea m ws mx"
  using assms unfolding pickMax_def
  by (rule pickFold_inv) auto

lemma removeOverlapping_shrinks:
  assumes "pickMax m ws = (Some mx, a)" and "a \<noteq> 0"
  shows "length (removeOverlapping m mx ws) < length ws"
proof -
  from pickMax_Some [OF assms(1)] assms(2)
  have "totalIntersectionArea m ws mx \<noteq> 0" by simp
  then obtain other where o: "other \<in> set ws" "other \<noteq> mx" "truthy (lookup m mx other)"
    using total_nonzero by blast
  then have "\<not> (other = mx \<or> \<not> overlaps m mx other)"
    by (simp add: overlaps_def jsOr_def)
  with o(1) show ?thesis
    unfolding removeOverlapping_def by (rule length_filter_less)
qed

function greedyLoop :: "matrix \<Rightarrow> string list \<Rightarrow> string list \<Rightarrow> string list \<times> string list" where
  "greedyLoop m selected ws =
     (if ws = [] then (selected, ws)
      else
        (case pickMax m ws of
           (None, maxArea) \<Rightarrow> (selected, ws)
         | (Some maxSensor, maxArea) \<Rightarrow>
             if maxSensor = [] \<or> maxArea = 0 then (selected, ws)
             else greedyLoop m (selected @ [maxSensor]) (removeOverlapping m maxSensor ws)))"
  by pat_completeness auto
termination
  by (relation "measure (\<lambda>(m, selected, ws). length ws)")
     (auto intro: removeOverlapping_shrinks [OF sym])

declare greedyLoop.simps [simp del]

text \<open>Step 4 of the selector: the best visible sensor per hidden one, then the counts.
  \<open>hiddenToBestVisible\<close> is an object keyed by hidden sensor; the \<open>for ... in\<close> loop over it
  visits each of its keys once (\<open>ownKeys\<close>).\<close>

definition pairArea :: "matrix \<Rightarrow> string \<Rightarrow> string \<Rightarrow> real" where
  "pairArea m visible hidden = orZero (jsOr (lookup m visible hidden) (lookup m hidden visible))"

definition bestStep ::
  "matrix \<Rightarrow> string \<Rightarrow> string \<Rightarrow> (string \<rightharpoonup> string \<times> real) \<Rightarrow> (string \<rightharpoonup> string \<times> real)" where
  "bestStep m visible hidden best =
     (let area = pairArea m visible hidden
      in if area > 0
         then (case best hidden of
                 None \<Rightarrow> best(hidden \<mapsto> (visible, area))
               | Some (v, a) \<Rightarrow> if area > a then best(hidden \<mapsto> (visible, area)) else best)
         else best)"

definition hiddenToBestVisible ::
  "matrix \<Rightarrow> string list \<Rightarrow> string list \<Rightarrow> (string \<rightharpoonup> string \<times> real)" where
  "hiddenToBestVisible m vis hid =
     fold (\<lambda>visible best. fold (bestStep m visible) hid best) vis Map.empty"

definition ownKeys :: "(string \<rightharpoonup> 'a) \<Rightarrow> string list \<Rightarrow> string list" where
  "ownKeys obj candidates = remdups (filter (\<lambda>k. obj k \<noteq> None) candidates)"

definition countStep ::
  "(string \<rightharpoonup> string \<times> real) \<Rightarrow> string \<Rightarrow> (string \<rightharpoonup> nat) \<Rightarrow> (string \<rightharpoonup> nat)" where
  "countStep best hidden counts =
     (case best hidden of
        None \<Rightarrow> counts
      | Some (visible, a) \<Rightarrow>
          counts(visible \<mapsto> (case counts visible of None \<Rightarrow> 0 | Some n \<Rightarrow> n) + 1))"

definition addSelf :: "(string \<rightharpoonup> nat) \<Rightarrow> (string \<rightharpoonup> nat)" where
  "addSelf counts = (\<lambda>key. case counts key of None \<Rightarrow> None | Some n \<Rightarrow> Some (n + 1))"

definition buildHiddenCounts :: "matrix \<Rightarrow> string list \<Rightarrow> string list \<Rightarrow> (string \<rightharpoonup> nat)" where
  "buildHiddenCounts m vis hid =
     (let best = hiddenToBestVisible m vis hid
      in addSelf (fold (countStep best) (ownKeys best hid) Map.empty))"

text \<open>The selector itself. \<open>curPresentSensors\<close> is \<open>null\<close> by default (\<open>None\<close>); an array,
  even an empty one, is truthy. \<open>greedyState\<close> exposes the two loop variables
  (\<open>selected\<close>, \<open>filteredInSensors\<close>) as they are when the \<open>while\<close> loop is left.\<close>

definition sensorBoundsOf :: "glyph list \<Rightarrow> real \<Rightarrow> sensorBound list" where
  "sensorBoundsOf dataArray rad = map (toSensorBound 1.0 rad) dataArray"

definition intersectMatrixOf :: "glyph list \<Rightarrow> real \<Rightarrow> matrix" where
  "intersectMatrixOf dataArray rad = buildIntersectMatrix 1.0 (sensorBoundsOf dataArray rad)"

definition initialWorkingSet :: "matrix \<Rightarrow> string list \<Rightarrow> string list option \<Rightarrow> string list" where
  "initialWorkingSet m allIds curPresentSensors =
     (case curPresentSensors of
        None \<Rightarrow> allIds
      | Some present \<Rightarrow>
          filter (\<lambda>s. \<not> list_ex (\<lambda>p. truthy (jsOr (lookup m s p) (lookup m p s))) present) allIds)"

definition greedyState :: "glyph list \<Rightarrow> real \<Rightarrow> string list option \<Rightarrow> string list \<times> string list" where
  "greedyState dataArray rad curPresentSensors =
     (let m = intersectMatrixOf dataArray rad;
          allIds = map bsensor (sensorBoundsOf dataArray rad)
      in greedyLoop m [] (initialWorkingSet m allIds curPresentSensors))"

definition filterOverlappingRosesGreedy ::
  "glyph list \<Rightarrow> real \<Rightarrow> string list option \<Rightarrow> selection" where
  "filterOverlappingRosesGreedy dataArray rad curPresentSensors =
     (if dataArray = [] then emptySelection
      else
        (let m = intersectMatrixOf dataArray rad;
             allIds = map bsensor (sensorBoundsOf dataArray rad);
             finalFilteredInSensors = snd (greedyState dataArray rad curPresentSensors);
             out = filter (\<lambda>s. s \<notin> set finalFilteredInSensors) allIds
         in \<lparr>filteredOutSensors = out,
             filteredInSensors = finalFilteredInSensors,
             hiddenCountsMap = buildHiddenCounts m finalFilteredInSensors out\<rparr>))"

section \<open>K-means spatial grouper\<close>

text \<open>
  Every data point is built by the selector as \<open>[d.latitude, d.longitude]\<close>, so a point is a
  pair. A centroid is a data point, a mean of data points, or \<open>undefined\<close> (\<open>None\<close>): the
  \<open>zip\<close> helper drops an \<open>undefined\<close> argument, so the distance of a point to an undefined
  centroid is the norm of the point. Array reads out of range give \<open>undefined\<close>.
\<close>

type_synonym point = "real \<times> real"

datatype jsError = TypeError | SyntaxError | InvalidKMeansResult

definition nthOpt :: "'a list \<Rightarrow> int \<Rightarrow> 'a option" where
  "nthOpt xs i = (if 0 \<le> i \<and> i < int (length xs) then Some (xs ! nat i) else None)"

definition calcDistance :: "point \<Rightarrow> point option \<Rightarrow> real" where
  "calcDistance pointOne pointTwo =
     (case pointTwo of
        Some q \<Rightarrow> sqrt ((fst pointOne - fst q) ^ 2 + (snd pointOne - snd q) ^ 2)
      | None \<Rightarrow> sqrt ((fst pointOne) ^ 2 + (snd pointOne) ^ 2))"

text \<open>\<open>Math.min(...ds)\<close> is \<open>Infinity\<close> (\<open>None\<close>) on an empty array; \<open>indexOf\<close> gives \<open>-1\<close>
  when the value is absent.\<close>

definition mathMin :: "real list \<Rightarrow> real option" where
  "mathMin ds = (case ds of [] \<Rightarrow> None | d # rest \<Rightarrow> Some (fold min rest d))"

fun indexFrom :: "'a list \<Rightarrow> 'a \<Rightarrow> int \<Rightarrow> int" where
  "indexFrom [] v i = - 1"
| "indexFrom (x # xs) v i = (if x = v then i else indexFrom xs v (i + 1))"

definition indexOf :: "'a list \<Rightarrow> 'a \<Rightarrow> int" where
  "indexOf xs v = indexFrom xs v 0"

definition classifyPoint :: "point option list \<Rightarrow> point \<Rightarrow> int" where
  "classifyPoint centers point =
     (let distance = map (calcDistance point) centers
      in case mathMin distance of None \<Rightarrow> - 1 | Some least \<Rightarrow> indexOf distance least)"

definition classifyData :: "point list \<Rightarrow> point option list \<Rightarrow> int list" where
  "classifyData datapoints centers = map (classifyPoint centers) datapoints"

subsection \<open>Parallel iteration protocol: split, fan-in, recombine\<close>

definition splitData :: "'a list \<Rightarrow> 'a list list" where
  "splitData data = [take (length data div 2) data, drop (length data div 2) data]"

fun combineData :: "'a list list \<Rightarrow> 'a list option" where
  "combineData (zero # one # rest) = Some (zero @ one)"
| "combineData _ = None"

text \<open>The two classify workers answer in some order; each answer is pushed onto
  \<open>classified_data\<close> when it arrives, and the array is recombined once both have arrived.
  \<open>completionOrder\<close> lists the worker indices in the order of their answers, a
  permutation of \<open>[0, 1]\<close>.\<close>

definition classifiedAfterFanIn :: "point list \<Rightarrow> point option list \<Rightarrow> nat list \<Rightarrow> int list option" where
  "classifiedAfterFanIn data centroids completionOrder =
     (let data_buckets = splitData data;
          classified_data = map (\<lambda>i. classifyData (data_buckets ! i) centroids) completionOrder
      in combineData classified_data)"

subsection \<open>Centroid recompute (move worker)\<close>

definition vectorAdd :: "point \<Rightarrow> point \<Rightarrow> point" where
  "vectorAdd arrayOne arrayTwo = (fst arrayOne + fst arrayTwo, snd arrayOne + snd arrayTwo)"

definition scalarDivide :: "point \<Rightarrow> real \<Rightarrow> point" where
  "scalarDivide arrayOne scalar = (fst arrayOne / scalar, snd arrayOne / scalar)"

text \<open>\<open>reduce\<close> without an initial value raises a TypeError on an empty array (\<open>None\<close>).\<close>

fun reduce :: "('a \<Rightarrow> 'a \<Rightarrow> 'a) \<Rightarrow> 'a list \<Rightarrow> 'a option" where
  "reduce f [] = None"
| "reduce f (x # xs) = Some (fold (\<lambda>c p. f p c) xs x)"

definition members :: "point list \<Rightarrow> int list \<Rightarrow> nat \<Rightarrow> point list" where
  "members datapoints assignments clusterIdx =
     map (\<lambda>dataIdx. datapoints ! dataIdx)
       (filter (\<lambda>dataIdx. nthOpt assignments (int dataIdx) = Some (int clusterIdx))
          [0..<length datapoints])"

fun sequence :: "'a option list \<Rightarrow> 'a list option" where
  "sequence [] = Some []"
| "sequence (x # xs) =
     (case x of None \<Rightarrow> None
      | Some y \<Rightarrow> (case sequence xs of None \<Rightarrow> None | Some ys \<Rightarrow> Some (y # ys)))"

definition moveCenters :: "point list \<Rightarrow> point option list \<Rightarrow> int list \<Rightarrow> point list option" where
  "moveCenters datapoints centers assignments =
     sequence
       (map (\<lambda>clusterIdx.
               case reduce vectorAdd (members datapoints assignments clusterIdx) of
                 None \<Rightarrow> None
               | Some summed \<Rightarrow> Some (scalarDivide summed (real (length datapoints))))
          [0..<length centers])"

definition arithmeticMean :: "point list \<Rightarrow> point option" where
  "arithmeticMean pts =
     (case reduce vectorAdd pts of
        None \<Rightarrow> None
      | Some summed \<Rightarrow> Some (scalarDivide summed (real (length pts))))"

subsection \<open>Seeding and re-seeding\<close>

text \<open>\<open>Math.random()\<close> is a parameter: \<open>rnd i\<close> is the value of the \<open>i\<close>-th draw of a run, a real
  number in \<open>[0, 1)\<close>. A total of \<open>Infinity\<close> (a \<open>None\<close> distance) turns every weight into
  \<open>0\<close> or \<open>NaN\<close>, and the inner loop \<open>j < multiples\<close> then pushes nothing, as for weight \<open>0\<close>;
  a total of \<open>0\<close> makes every weight \<open>0 / 0\<close>, with the same effect.\<close>

definition weightsOf :: "real option list \<Rightarrow> jsError + real list" where
  "weightsOf distances =
     (case sequence distances of
        None \<Rightarrow> Inr (map (\<lambda>d. 0) distances)
      | Some ds \<Rightarrow>
          (case reduce (\<lambda>p c. p + c) ds of
             None \<Rightarrow> Inl TypeError
           | Some summed \<Rightarrow> Inr (map (\<lambda>elem. elem / summed) ds)))"

definition minDistanceToCentroid :: "point list \<Rightarrow> point option list \<Rightarrow> real option list" where
  "minDistanceToCentroid datapoints centroids =
     map (\<lambda>point. mathMin (map (calcDistance point) centroids)) datapoints"

definition generateWeightedList :: "'a list \<Rightarrow> real list \<Rightarrow> 'a option list" where
  "generateWeightedList list weights =
     concat (map (\<lambda>i. replicate (nat \<lceil>weights ! i * 100\<rceil>) (nthOpt list (int i)))
               [0..<length weights])"

definition randomIndex :: "nat \<Rightarrow> real \<Rightarrow> int" where
  "randomIndex maxIdx r = \<lfloor>r * (real maxIdx + 1)\<rfloor>"

definition drawPoint :: "point list \<Rightarrow> real list \<Rightarrow> real \<Rightarrow> point option" where
  "drawPoint data weights r =
     (let weightedList = generateWeightedList [0..<length data] weights
      in case nthOpt weightedList (randomIndex (length weightedList) r) of
           None \<Rightarrow> None
         | Some None \<Rightarrow> None
         | Some (Some idx) \<Rightarrow> nthOpt data (int idx))"

fun smartInitLoop ::
  "point list \<Rightarrow> (nat \<Rightarrow> real) \<Rightarrow> nat \<Rightarrow> nat \<Rightarrow> point option list \<Rightarrow> real list
   \<Rightarrow> jsError + point option list" where
  "smartInitLoop data rnd 0 i centroids weights = Inr centroids"
| "smartInitLoop data rnd (Suc n) i centroids weights =
     (let centroids' = centroids @ [drawPoint data weights (rnd i)]
      in case weightsOf (minDistanceToCentroid data centroids') of
           Inl e \<Rightarrow> Inl e
         | Inr weights' \<Rightarrow> smartInitLoop data rnd n (i + 1) centroids' weights')"

definition smartInit :: "point list \<Rightarrow> nat \<Rightarrow> (nat \<Rightarrow> real) \<Rightarrow> jsError + point option list" where
  "smartInit data k rnd =
     (let first = nthOpt data \<lfloor>rnd 0 * real (length data)\<rfloor>
      in case weightsOf (map (\<lambda>point. Some (calcDistance point first)) data) of
           Inl e \<Rightarrow> Inl e
         | Inr weights \<Rightarrow> smartInitLoop data rnd (k - 1) 1 [first] weights)"

definition reInitCentroid :: "point list \<Rightarrow> point option list \<Rightarrow> real \<Rightarrow> jsError + point option" where
  "reInitCentroid datapoints centroids r =
     (case weightsOf (minDistanceToCentroid datapoints centroids) of
        Inl e \<Rightarrow> Inl e
      | Inr weights \<Rightarrow> Inr (drawPoint datapoints weights r))"

section \<open>Clustering selector and its cache\<close>

text \<open>
  The host platform is a parameter of the selector: \<open>fetchFile\<close> is the parsed body of the
  static cache file when the request succeeds, \<open>stringify\<close> and \<open>parse\<close> are
  \<open>JSON.stringify\<close> and \<open>JSON.parse\<close> (\<open>None\<close>: a SyntaxError is raised), \<open>setItemOk\<close>
  tells whether \<open>localStorage.setItem\<close> succeeds, and \<open>kmeansRun k data\<close> is what the
  randomised, asynchronous clustering run hands to its callback: the final assignments
  and the centroids left on the \<open>KMeans\<close> object, or \<open>None\<close> when the result has no data.
  The state is the content of \<open>localStorage\<close>; the Cache Storage entry that \<open>clearCache\<close>
  also deletes is never read by the selector and is left out.
\<close>

record platform =
  fetchFile :: "string \<Rightarrow> selection option"
  stringify :: "selection \<Rightarrow> string"
  parse :: "string \<Rightarrow> selection option"
  setItemOk :: bool
  kmeansRun :: "nat \<Rightarrow> point list \<Rightarrow> (int list \<times> point option list) option"

type_synonym localStorage = "string \<rightharpoonup> string"

definition CACHE_DIR :: string where
  "CACHE_DIR = ''./cache''"

definition cacheKeyOf :: "string \<Rightarrow> string" where
  "cacheKeyOf filterName = ''filterCache-'' @ filterName"

definition cacheFilePathOf :: "string \<Rightarrow> string" where
  "cacheFilePathOf filterName = CACHE_DIR @ ''/'' @ filterName @ ''_cache.json''"

definition clearCache :: "localStorage \<Rightarrow> string \<Rightarrow> localStorage" where
  "clearCache ls filterName = ls(cacheKeyOf filterName := None)"

definition numClustersOf :: "int \<Rightarrow> nat" where
  "numClustersOf zoomLevel =
     (if zoomLevel = 0 then 1 else if zoomLevel = 1 then 2 else if zoomLevel = 2 then 9
      else if zoomLevel = 3 then 18 else if zoomLevel = 4 then 24 else 8)"

text \<open>\<open>sensorsByCluster\<close> is a \<open>Map\<close>: its entries are kept in the order in which their keys
  were first set. The key is \<open>clusters[index]\<close>, \<open>undefined\<close> beyond the end of \<open>clusters\<close>.\<close>

fun addToGroup :: "'k \<Rightarrow> 'v \<Rightarrow> ('k \<times> 'v list) list \<Rightarrow> ('k \<times> 'v list) list" where
  "addToGroup key d [] = [(key, [d])]"
| "addToGroup key d ((k, g) # rest) =
     (if k = key then (k, g @ [d]) # rest else (k, g) # addToGroup key d rest)"

definition sensorsByCluster :: "glyph list \<Rightarrow> int list \<Rightarrow> (int option \<times> glyph list) list" where
  "sensorsByCluster dataArray clusters =
     fold (\<lambda>index groups. addToGroup (nthOpt clusters (int index)) (dataArray ! index) groups)
       [0..<length dataArray] []"

definition centroidAt :: "point option list \<Rightarrow> int option \<Rightarrow> point option" where
  "centroidAt centroids clusterIndex =
     (case clusterIndex of
        None \<Rightarrow> None
      | Some i \<Rightarrow> (case nthOpt centroids i of None \<Rightarrow> None | Some c \<Rightarrow> c))"

text \<open>\<open>minDistance\<close> starts at \<open>Infinity\<close> (\<open>None\<close>).\<close>

definition sensorDistance :: "point \<Rightarrow> glyph \<Rightarrow> real" where
  "sensorDistance centroid s =
     sqrt ((latitude s - fst centroid) ^ 2 + (longitude s - snd centroid) ^ 2)"

definition closerStep :: "point \<Rightarrow> glyph \<Rightarrow> glyph \<times> real option \<Rightarrow> glyph \<times> real option" where
  "closerStep centroid s acc =
     (let distance = sensorDistance centroid s
      in if (case snd acc of None \<Rightarrow> True | Some minDistance \<Rightarrow> distance < minDistance)
         then (s, Some distance) else acc)"

definition bestSensorOf :: "point \<Rightarrow> glyph \<Rightarrow> glyph list \<Rightarrow> glyph" where
  "bestSensorOf centroid first sensorGroup = fst (fold (closerStep centroid) sensorGroup (first, None))"

definition setAdd :: "'a \<Rightarrow> 'a list \<Rightarrow> 'a list" where
  "setAdd x xs = (if x \<in> set xs then xs else xs @ [x])"

fun reduceGroups ::
  "point option list \<Rightarrow> (int option \<times> glyph list) list \<Rightarrow> string list \<times> (string \<rightharpoonup> nat)
   \<Rightarrow> jsError + string list \<times> (string \<rightharpoonup> nat)" where
  "reduceGroups centroids [] acc = Inr acc"
| "reduceGroups centroids ((clusterIndex, sensorGroup) # rest) acc =
     (case sensorGroup of
        [] \<Rightarrow> Inl TypeError
      | first # others \<Rightarrow>
          (case centroidAt centroids clusterIndex of
             None \<Rightarrow> Inl TypeError
           | Some centroid \<Rightarrow>
               (let chosenSensor = sensor (bestSensorOf centroid first sensorGroup);
                    hiddenCount = length sensorGroup
                in reduceGroups centroids rest
                     (setAdd chosenSensor (fst acc),
                      if hiddenCount > 1 then (snd acc)(chosenSensor \<mapsto> hiddenCount)
                      else snd acc))))"

definition reduceClusters :: "glyph list \<Rightarrow> int list \<Rightarrow> point option list \<Rightarrow> jsError + selection" where
  "reduceClusters dataArray clusters centroids =
     (case reduceGroups centroids (sensorsByCluster dataArray clusters) ([], Map.empty) of
        Inl e \<Rightarrow> Inl e
      | Inr (sensorsToKeep, counts) \<Rightarrow>
          Inr \<lparr>filteredOutSensors = filter (\<lambda>s. s \<notin> set sensorsToKeep) (map sensor dataArray),
               filteredInSensors = sensorsToKeep,
               hiddenCountsMap = counts\<rparr>)"

definition computeKmeans ::
  "platform \<Rightarrow> localStorage \<Rightarrow> glyph list \<Rightarrow> int \<Rightarrow> string \<Rightarrow> (jsError + selection) \<times> localStorage" where
  "computeKmeans pf ls dataArray zoomLevel filterName =
     (if dataArray = [] then (Inr emptySelection, ls)
      else
        (case kmeansRun pf (numClustersOf zoomLevel) (map (\<lambda>d. (latitude d, longitude d)) dataArray) of
           None \<Rightarrow> (Inl InvalidKMeansResult, ls)
         | Some (clusters, centroids) \<Rightarrow>
             (case reduceClusters dataArray clusters centroids of
                Inl e \<Rightarrow> (Inl e, ls)
              | Inr result \<Rightarrow>
                  (Inr result,
                   if setItemOk pf then ls(cacheKeyOf filterName \<mapsto> stringify pf result) else ls))))"

definition filterOverlappingRosesKmeans ::
  "platform \<Rightarrow> localStorage \<Rightarrow> glyph list \<Rightarrow> int \<Rightarrow> string \<Rightarrow> bool \<Rightarrow> bool
   \<Rightarrow> (jsError + selection) \<times> localStorage" where
  "filterOverlappingRosesKmeans pf ls0 dataArray zoomLevel filterName doClearCache doDownloadCache =
     (let ls = (if doClearCache then clearCache ls0 filterName else ls0)
      in case fetchFile pf (cacheFilePathOf filterName) of
           Some cachedData \<Rightarrow> (Inr cachedData, ls)
         | None \<Rightarrow>
             (case ls (cacheKeyOf filterName) of
                None \<Rightarrow> computeKmeans pf ls dataArray zoomLevel filterName
              | Some cachedData \<Rightarrow>
                  if cachedData = [] then computeKmeans pf ls dataArray zoomLevel filterName
                  else (case parse pf cachedData of
                          None \<Rightarrow> (Inl SyntaxError, ls)
                        | Some r \<Rightarrow> (Inr r, ls))))"

section \<open>Notions used to state the properties\<close>

text \<open>The visible sensor a hidden sensor is attributed to, in the words of the
  specification: the first visible sensor, in the order of the visible list, whose overlap area
  with the hidden sensor is positive and is the largest among the visible sensors.\<close>

definition attributedTo :: "matrix \<Rightarrow> string list \<Rightarrow> string \<Rightarrow> string option" where
  "attributedTo m vis hidden =
     find (\<lambda>v. 0 < pairArea m v hidden \<and> (\<forall>v'\<in>set vis. pairArea m v' hidden \<le> pairArea m v hidden)) vis"

text \<open>The entry of a cluster group in \<open>sensorsToKeep\<close>: the sensor of its best member.\<close>

definition representative :: "point option list \<Rightarrow> int option \<times> glyph list \<Rightarrow> string option" where
  "representative cs kg =
     (case snd kg of
        [] \<Rightarrow> None
      | first # others \<Rightarrow>
          (case centroidAt cs (fst kg) of
             None \<Rightarrow> None
           | Some c \<Rightarrow> Some (sensor (bestSensorOf c first (snd kg)))))"


definition updBest :: "real \<Rightarrow> string \<Rightarrow> (string \<times> real) option \<Rightarrow> (string \<times> real) option" where
  "updBest area v cur =
     (if area > 0
      then (case cur of None \<Rightarrow> Some (v, area)
            | Some (v0, a0) \<Rightarrow> if area > a0 then Some (v, area) else cur)
      else cur)"

definition bestState :: "(string \<Rightarrow> real) \<Rightarrow> string list \<Rightarrow> (string \<times> real) option \<Rightarrow> bool" where
  "bestState f vs cur =
     ((cur = None \<and> (\<forall>v\<in>set vs. f v \<le> 0)) \<or>
      (\<exists>ys v zs. vs = ys @ v # zs \<and> cur = Some (v, f v) \<and> 0 < f v \<and>
         (\<forall>y\<in>set ys. f y < f v) \<and> (\<forall>z\<in>set zs. f z \<le> f v)))"

definition closestState :: "point \<Rightarrow> glyph \<Rightarrow> glyph list \<Rightarrow> glyph \<times> real option \<Rightarrow> bool" where
  "closestState c first gs acc =
     ((gs = [] \<and> acc = (first, None)) \<or>
      (\<exists>b. acc = (b, Some (sensorDistance c b)) \<and> b \<in> set gs \<and>
           (\<forall>g\<in>set gs. sensorDistance c b \<le> sensorDistance c g)))"

definition flat :: "('k \<times> 'v list) list \<Rightarrow> 'v list" where
  "flat gs = concat (map snd gs)"

definition groupsUpTo :: "glyph list \<Rightarrow> int list \<Rightarrow> nat \<Rightarrow> (int option \<times> glyph list) list" where
  "groupsUpTo dataArray clusters n =
     fold (\<lambda>index groups. addToGroup (nthOpt clusters (int index)) (dataArray ! index) groups)
       [0..<n] []"

section \<open>Example inputs\<close>

text \<open>Two glyphs at the same place, a third one a degree of latitude away, and a platform
  with no static cache file whose clustering run puts every point in cluster 0 with
  centroid \<open>(0, 0)\<close>.\<close>

definition gA :: glyph where "gA = \<lparr>sensor = ''a'', latitude = 0, longitude = 0\<rparr>"

definition gB :: glyph where "gB = \<lparr>sensor = ''b'', latitude = 0, longitude = 0\<rparr>"

definition gC :: glyph where "gC = \<lparr>sensor = ''c'', latitude = 1, longitude = 0\<rparr>"

definition exSelection :: selection where
  "exSelection = \<lparr>filteredOutSensors = [''b''], filteredInSensors = [''a''],
                   hiddenCountsMap = [''a'' \<mapsto> 2]\<rparr>"

definition exPlatform :: platform where
  "exPlatform = \<lparr>fetchFile = (\<lambda>path. None), stringify = (\<lambda>r. ''cached''),
                  parse = (\<lambda>s. Some exSelection), setItemOk = True,
                  kmeansRun = (\<lambda>k data. Some (map (\<lambda>p. 0) data, [Some (0, 0)]))\<rparr>"

section \<open>The greedy loop\<close>

lemma greedyLoop_subset:
  "greedyLoop m sel ws = (sel', ws') \<Longrightarrow> set ws' \<subseteq> set ws"
proof (induction m sel ws rule: greedyLoop.induct)
  case (1 m selected ws)
  show ?case
  proof (cases "ws = []")
    case True
    with "1.prems" show ?thesis by (simp add: greedyLoop.simps)
  next
    case False
    obtain ms a where pm: "pickMax m ws = (ms, a)" by (cases "pickMax m ws")
    show ?thesis
    proof (cases ms)
      case None
      with False pm "1.prems" show ?thesis by (simp add: greedyLoop.simps)
    next
      case (Some mx)
      show ?thesis
      proof (cases "mx = [] \<or> a = 0")
        case True
        with False pm Some "1.prems" show ?thesis by (auto simp add: greedyLoop.simps)
      next
        case stop: False
        with False pm Some "1.prems"
        have "greedyLoop m (selected @ [mx]) (removeOverlapping m mx ws) = (sel', ws')"
          by (simp add: greedyLoop.simps)
        with "1.IH" [OF False pm [symmetric] Some] stop
        have "set ws' \<subseteq> set (removeOverlapping m mx ws)" by simp
        then show ?thesis by (auto simp: removeOverlapping_def)
      qed
    qed
  qed
qed




lemma allIds_eq: "map bsensor (sensorBoundsOf dataArray rad) = map sensor dataArray"
  by (simp add: sensorBoundsOf_def toSensorBound_def)

lemma initialWorkingSet_subset: "set (initialWorkingSet m allIds cur) \<subseteq> set allIds"
  by (auto simp: initialWorkingSet_def split: option.splits)

lemma greedy_final_subset:
  "set (snd (greedyState dataArray rad cur)) \<subseteq> set (map sensor dataArray)"
proof -
  obtain sel fin where st: "greedyState dataArray rad cur = (sel, fin)"
    by (cases "greedyState dataArray rad cur")
  then have "set fin \<subseteq> set (initialWorkingSet (intersectMatrixOf dataArray rad)
      (map bsensor (sensorBoundsOf dataArray rad)) cur)"
    unfolding greedyState_def Let_def by (rule greedyLoop_subset)
  also have "\<dots> \<subseteq> set (map bsensor (sensorBoundsOf dataArray rad))"
    by (rule initialWorkingSet_subset)
  finally show ?thesis using st by (simp add: allIds_eq)
qed

lemma greedy_partition:
  "set (filteredInSensors (filterOverlappingRosesGreedy dataArray rad cur))
     \<union> set (filteredOutSensors (filterOverlappingRosesGreedy dataArray rad cur))
     = set (map sensor dataArray)
   \<and> set (filteredInSensors (filterOverlappingRosesGreedy dataArray rad cur))
     \<inter> set (filteredOutSensors (filterOverlappingRosesGreedy dataArray rad cur)) = {}"
proof (cases "dataArray = []")
  case True
  then show ?thesis by (simp add: filterOverlappingRosesGreedy_def emptySelection_def)
next
  case False
  with greedy_final_subset [of dataArray rad cur] show ?thesis
    by (auto simp: filterOverlappingRosesGreedy_def Let_def allIds_eq)
qed





subsection \<open>The selector on two coincident glyphs\<close>

lemma matrix_ex:
  "intersectMatrixOf [gA, gB] 1 = [''a'' \<mapsto> [''b'' \<mapsto> pi], ''b'' \<mapsto> [''a'' \<mapsto> pi]]"
  by (simp add: intersectMatrixOf_def sensorBoundsOf_def buildIntersectMatrix_def matrixRow_def
      matrixCell_def toSensorBound_def isOverlapping_def calculateIntersectionArea_def gA_def gB_def
      upt_rec Let_def)

lemma state_ex: "greedyState [gA, gB] 1 None = ([''a''], [''a''])"
proof -
  have neg: "- 1 < pi" using pi_gt_zero by linarith
  have ids: "map bsensor (sensorBoundsOf [gA, gB] 1) = [''a'', ''b'']"
    by (simp add: sensorBoundsOf_def toSensorBound_def gA_def gB_def)
  let ?m = "[''a'' \<mapsto> [''b'' \<mapsto> pi], ''b'' \<mapsto> [''a'' \<mapsto> pi]]"
  have p1: "pickMax ?m [''a'', ''b''] = (Some ''a'', pi)"
    using neg by (simp add: pickMax_def pickStep_def totalIntersectionArea_def lookup_def orZero_def)
  have r1: "removeOverlapping ?m ''a'' [''a'', ''b''] = [''a'']"
    by (simp add: removeOverlapping_def overlaps_def jsOr_def truthy_def lookup_def)
  have p2: "pickMax ?m [''a''] = (Some ''a'', 0)"
    by (simp add: pickMax_def pickStep_def totalIntersectionArea_def lookup_def orZero_def)
  have "greedyLoop ?m [] [''a'', ''b''] = ([''a''], [''a''])"
    by (simp add: greedyLoop.simps [of ?m "[]" "[''a'', ''b'']"] p1 r1
         greedyLoop.simps [of ?m "[''a'']" "[''a'']"] p2)
  then show ?thesis
    by (simp add: greedyState_def matrix_ex ids initialWorkingSet_def)
qed

lemma greedy_ex: "filterOverlappingRosesGreedy [gA, gB] 1 None = exSelection"
proof -
  have ids: "map bsensor (sensorBoundsOf [gA, gB] 1) = [''a'', ''b'']"
    by (simp add: sensorBoundsOf_def toSensorBound_def gA_def gB_def)
  let ?m = "[''a'' \<mapsto> [''b'' \<mapsto> pi], ''b'' \<mapsto> [''a'' \<mapsto> pi]]"
  have best: "hiddenToBestVisible ?m [''a''] [''b''] = [''b'' \<mapsto> (''a'', pi)]"
    by (simp add: hiddenToBestVisible_def bestStep_def pairArea_def jsOr_def truthy_def lookup_def orZero_def)
  have "buildHiddenCounts ?m [''a''] [''b''] = [''a'' \<mapsto> 2]"
    by (auto simp add: buildHiddenCounts_def best ownKeys_def countStep_def addSelf_def fun_eq_iff)
  then show ?thesis
    by (simp add: filterOverlappingRosesGreedy_def state_ex matrix_ex ids exSelection_def)
qed

lemma pairArea_ex: "pairArea (intersectMatrixOf [gA, gB] 1) ''a'' ''b'' = pi"
  by (simp add: matrix_ex pairArea_def jsOr_def truthy_def lookup_def orZero_def)



section \<open>Mutually disjoint glyphs\<close>

lemma fold_id: "(\<And>x. x \<in> set xs \<Longrightarrow> f x a = a) \<Longrightarrow> fold f xs a = a"
  by (induction xs) auto

lemma matrixRow_empty:
  assumes "\<And>j. j < length sbs \<Longrightarrow> i \<noteq> j \<Longrightarrow> \<not> isOverlapping (sbs ! i) (sbs ! j) c"
  shows "matrixRow c sbs i = Map.empty"
  unfolding matrixRow_def
  by (rule fold_id) (use assms in \<open>auto simp: matrixCell_def\<close>)

lemma fold_invariant:
  "P a \<Longrightarrow> (\<And>x b. x \<in> set xs \<Longrightarrow> P b \<Longrightarrow> P (f x b)) \<Longrightarrow> P (fold f xs a)"
  by (induction xs arbitrary: a) auto

lemma lookup_none:
  assumes "\<And>i j. i < length sbs \<Longrightarrow> j < length sbs \<Longrightarrow> i \<noteq> j
              \<Longrightarrow> \<not> isOverlapping (sbs ! i) (sbs ! j) c"
  shows "lookup (buildIntersectMatrix c sbs) a b = None"
proof -
  let ?P = "\<lambda>m::matrix. \<forall>k r. m k = Some r \<longrightarrow> r = Map.empty"
  have rows: "\<And>i. i \<in> set [0..<length sbs] \<Longrightarrow> matrixRow c sbs i = Map.empty"
    using assms by (auto intro: matrixRow_empty)
  have "?P (buildIntersectMatrix c sbs)"
    unfolding buildIntersectMatrix_def
  proof (rule fold_invariant [where P = ?P])
    show "?P Map.empty" by simp
  next
    fix i and m :: matrix
    assume "i \<in> set [0..<length sbs]" and "?P m"
    then show "?P (m(bsensor (sbs ! i) \<mapsto> matrixRow c sbs i))"
      using rows by auto
  qed
  then show ?thesis
    by (cases "buildIntersectMatrix c sbs a") (auto simp: lookup_def)
qed

lemma total_zero:
  assumes "\<And>a b. lookup m a b = None"
  shows "totalIntersectionArea m ws s = 0"
  unfolding totalIntersectionArea_def
  by (rule total_unchanged) (simp add: assms orZero_def)

lemma pickFold_zero:
  assumes "\<And>s. totalIntersectionArea m ws s = 0"
  shows "fold (pickStep m ws) xs (Some x, 0) = (Some x, 0)"
  by (rule fold_id) (simp add: pickStep_def assms)

lemma pickMax_zero:
  assumes "\<And>a b. lookup m a b = None"
  shows "pickMax m (x # xs) = (Some x, 0)"
proof -
  have z: "\<And>s. totalIntersectionArea m (x # xs) s = 0" using assms by (rule total_zero)
  have "pickStep m (x # xs) x (None, - 1) = (Some x, 0)" by (simp add: pickStep_def z)
  then show ?thesis
    unfolding pickMax_def using pickFold_zero [of m "x # xs" xs x, OF z] by simp
qed

lemma greedyLoop_no_overlap:
  assumes "\<And>a b. lookup m a b = None"
  shows "greedyLoop m sel ws = (sel, ws)"
proof (cases ws)
  case Nil
  then show ?thesis by (simp add: greedyLoop.simps)
next
  case (Cons x xs)
  with pickMax_zero [of m x xs, OF assms] show ?thesis
    by (simp add: greedyLoop.simps [of m sel "x # xs"])
qed

lemma best_empty: "hiddenToBestVisible m vis [] = Map.empty"
  unfolding hiddenToBestVisible_def by (rule fold_id) simp

lemma counts_empty: "buildHiddenCounts m vis [] = Map.empty"
  by (simp add: buildHiddenCounts_def best_empty ownKeys_def addSelf_def)

lemma far_apart: "\<not> sqrt (12392142400 :: real) \<le> 2"
proof -
  have "sqrt (12392142400 :: real) = 111320"
    using real_sqrt_abs2 [of "111320 :: real"] by simp
  then show ?thesis by simp
qed

lemma no_overlap_ex:
  "\<forall>i<length [gA, gC]. \<forall>j<length [gA, gC]. i \<noteq> j \<longrightarrow>
     \<not> isOverlapping (sensorBoundsOf [gA, gC] 1 ! i) (sensorBoundsOf [gA, gC] 1 ! j) 1.0"
  using far_apart
  by (auto simp: less_Suc_eq numeral_2_eq_2 sensorBoundsOf_def toSensorBound_def isOverlapping_def
      gA_def gC_def Let_def)

text \<open>
  C8. When no pair of glyphs overlaps (\<open>isOverlapping\<close> is false for every two positions of
  the input), the greedy selector returns every input sensor in \<open>filteredInSensors\<close>, an
  empty \<open>filteredOutSensors\<close> and an empty \<open>hiddenCountsMap\<close>, whatever
  \<open>curPresentSensors\<close> is.
\<close>

theorem greedy_disjoint_all_visible:
  assumes "\<forall>i<length dataArray. \<forall>j<length dataArray. i \<noteq> j \<longrightarrow>
     \<not> isOverlapping (sensorBoundsOf dataArray rad ! i) (sensorBoundsOf dataArray rad ! j) 1.0"
  shows "filterOverlappingRosesGreedy dataArray rad cur =
     \<lparr>filteredOutSensors = [], filteredInSensors = map sensor dataArray,
      hiddenCountsMap = Map.empty\<rparr>"
proof (cases "dataArray = []")
  case True
  then show ?thesis by (simp add: filterOverlappingRosesGreedy_def emptySelection_def)
next
  case False
  have len: "length (sensorBoundsOf dataArray rad) = length dataArray"
    by (simp add: sensorBoundsOf_def)
  have none: "\<And>a b. lookup (intersectMatrixOf dataArray rad) a b = None"
    unfolding intersectMatrixOf_def
    by (rule lookup_none) (use assms len in auto)
  have init: "initialWorkingSet (intersectMatrixOf dataArray rad) ids cur = ids" for ids
    by (cases cur) (simp_all add: initialWorkingSet_def none jsOr_def truthy_def list_ex_iff)
  have st: "greedyState dataArray rad cur = ([], map sensor dataArray)"
    by (simp add: greedyState_def init greedyLoop_no_overlap [OF none] allIds_eq)
  show ?thesis using False
    by (simp add: filterOverlappingRosesGreedy_def st allIds_eq counts_empty)
qed

theorem greedy_disjoint_all_visible_witness:
  "filterOverlappingRosesGreedy [gA, gC] 1 None =
     \<lparr>filteredOutSensors = [], filteredInSensors = [''a'', ''c''],
      hiddenCountsMap = Map.empty\<rparr>"
  using greedy_disjoint_all_visible [OF no_overlap_ex, of None] by (simp add: gA_def gC_def)

section \<open>Hidden-count attribution of the greedy selector\<close>

lemma bestStep_apply:
  "bestStep m v hidden best h = (if h = hidden then updBest (pairArea m v h) v (best h) else best h)"
  by (auto simp: bestStep_def updBest_def Let_def split: option.splits)

lemma updBest_idem: "updBest a v (updBest a v cur) = updBest a v cur"
  by (auto simp: updBest_def split: option.splits)

lemma inner_fold_apply:
  "fold (bestStep m v) hid best h =
     (if h \<in> set hid then updBest (pairArea m v h) v (best h) else best h)"
proof (induction hid arbitrary: best)
  case Nil
  then show ?case by simp
next
  case (Cons x hid)
  have "fold (bestStep m v) (x # hid) best h = fold (bestStep m v) hid (bestStep m v x best) h"
    by simp
  also have "\<dots> = (if h \<in> set hid then updBest (pairArea m v h) v (bestStep m v x best h)
                    else bestStep m v x best h)"
    by (rule Cons.IH)
  also have "\<dots> = (if h \<in> set (x # hid) then updBest (pairArea m v h) v (best h) else best h)"
    by (simp add: bestStep_apply updBest_idem)
  finally show ?case .
qed

lemma outer_fold_apply:
  "fold (\<lambda>visible best. fold (bestStep m visible) hid best) vis best0 h =
     (if h \<in> set hid then fold (\<lambda>v cur. updBest (pairArea m v h) v cur) vis (best0 h)
      else best0 h)"
proof (induction vis arbitrary: best0)
  case Nil
  then show ?case by simp
next
  case (Cons v vis)
  have "fold (\<lambda>visible best. fold (bestStep m visible) hid best) (v # vis) best0 h
      = fold (\<lambda>visible best. fold (bestStep m visible) hid best) vis
          (fold (bestStep m v) hid best0) h"
    by simp
  also have "\<dots> = (if h \<in> set hid
      then fold (\<lambda>v cur. updBest (pairArea m v h) v cur) vis (fold (bestStep m v) hid best0 h)
      else fold (bestStep m v) hid best0 h)"
    by (rule Cons.IH)
  also have "\<dots> = (if h \<in> set hid
      then fold (\<lambda>v cur. updBest (pairArea m v h) v cur) (v # vis) (best0 h) else best0 h)"
    by (simp add: inner_fold_apply)
  finally show ?case .
qed

lemma bestState_found:
  "vs = ys @ v # zs \<Longrightarrow> cur = Some (v, f v) \<Longrightarrow> 0 < f v \<Longrightarrow>
   \<forall>y\<in>set ys. f y < f v \<Longrightarrow> \<forall>z\<in>set zs. f z \<le> f v \<Longrightarrow> bestState f vs cur"
  unfolding bestState_def by blast

lemma bestState_snoc:
  assumes "bestState f vs cur"
  shows "bestState f (vs @ [x]) (updBest (f x) x cur)"
proof (cases cur)
  case None
  with assms have le: "\<forall>v\<in>set vs. f v \<le> 0" by (auto simp: bestState_def)
  show ?thesis
  proof (cases "0 < f x")
    case True
    have "vs @ [x] = vs @ x # []" by simp
    moreover have "\<forall>y\<in>set vs. f y < f x" using le True by fastforce
    moreover have "updBest (f x) x cur = Some (x, f x)" using None True by (simp add: updBest_def)
    ultimately show ?thesis using True by (intro bestState_found [where zs = "[]"]) auto
  next
    case False
    with None le show ?thesis by (auto simp: bestState_def updBest_def)
  qed
next
  case (Some p)
  with assms obtain ys v zs where d: "vs = ys @ v # zs" "cur = Some (v, f v)" "0 < f v"
    "\<forall>y\<in>set ys. f y < f v" "\<forall>z\<in>set zs. f z \<le> f v"
    by (auto simp: bestState_def)
  show ?thesis
  proof (cases "0 < f x \<and> f v < f x")
    case True
    have "\<forall>y\<in>set vs. f y < f x" using d True by fastforce
    moreover have "updBest (f x) x cur = Some (x, f x)" using d True by (simp add: updBest_def)
    moreover have "vs @ [x] = vs @ x # []" by simp
    ultimately show ?thesis using True by (intro bestState_found [where zs = "[]"]) auto
  next
    case False
    then have keep: "updBest (f x) x cur = cur" using d by (auto simp: updBest_def)
    have "f x \<le> f v" using False d(3) by linarith
    then have "\<forall>z\<in>set (zs @ [x]). f z \<le> f v" using d(5) by simp
    moreover have "vs @ [x] = ys @ v # (zs @ [x])" using d(1) by simp
    ultimately show ?thesis unfolding keep using d(2,3,4)
      by (intro bestState_found [where zs = "zs @ [x]" and ys = ys and v = v]) auto
  qed
qed

lemma bestState_fold:
  "bestState f vs (fold (\<lambda>v cur. updBest (f v) v cur) vs None)"
proof (induction vs rule: rev_induct)
  case Nil
  then show ?case by (simp add: bestState_def)
next
  case (snoc x xs)
  then show ?case by (simp add: bestState_snoc)
qed

lemma find_first:
  "(\<And>y. y \<in> set ys \<Longrightarrow> \<not> P y) \<Longrightarrow> P v \<Longrightarrow> find P (ys @ v # zs) = Some v"
  by (induction ys) auto

lemma bestState_find:
  assumes "bestState f vs cur"
  shows "cur = (case find (\<lambda>v. 0 < f v \<and> (\<forall>v'\<in>set vs. f v' \<le> f v)) vs of
                  None \<Rightarrow> None | Some v \<Rightarrow> Some (v, f v))"
proof (cases cur)
  case None
  with assms have "\<forall>v\<in>set vs. f v \<le> 0" by (auto simp: bestState_def)
  then have "find (\<lambda>v. 0 < f v \<and> (\<forall>v'\<in>set vs. f v' \<le> f v)) vs = None"
    by (auto simp: find_None_iff)
  with None show ?thesis by simp
next
  case (Some p)
  with assms obtain ys v zs where d: "vs = ys @ v # zs" "cur = Some (v, f v)" "0 < f v"
    "\<forall>y\<in>set ys. f y < f v" "\<forall>z\<in>set zs. f z \<le> f v"
    by (auto simp: bestState_def)
  let ?P = "\<lambda>v. 0 < f v \<and> (\<forall>v'\<in>set vs. f v' \<le> f v)"
  have "?P v" using d by fastforce
  moreover have "\<And>y. y \<in> set ys \<Longrightarrow> \<not> ?P y"
  proof
    fix y assume "y \<in> set ys" "?P y"
    then have "f y < f v" "f v \<le> f y" using d by auto
    then show False by simp
  qed
  ultimately have "find ?P (ys @ v # zs) = Some v" by (intro find_first) auto
  then show ?thesis using d by simp
qed

lemma hiddenToBestVisible_apply:
  "hiddenToBestVisible m vis hid h =
     (if h \<in> set hid
      then (case attributedTo m vis h of None \<Rightarrow> None | Some v \<Rightarrow> Some (v, pairArea m v h))
      else None)"
  unfolding hiddenToBestVisible_def attributedTo_def
  by (simp add: outer_fold_apply bestState_find [OF bestState_fold, of "\<lambda>v. pairArea m v h" vis])

lemma attributedTo_exists:
  assumes "v \<in> set vis" and "0 < pairArea m v h"
  shows "attributedTo m vis h \<noteq> None"
proof -
  let ?f = "\<lambda>v. pairArea m v h"
  let ?cur = "fold (\<lambda>v cur. updBest (?f v) v cur) vis None"
  have st: "bestState ?f vis ?cur" by (rule bestState_fold)
  have "?cur \<noteq> None"
  proof
    assume "?cur = None"
    with st have "\<forall>v\<in>set vis. ?f v \<le> 0" by (auto simp: bestState_def)
    with assms show False by fastforce
  qed
  with bestState_find [OF st] show ?thesis
    by (auto simp: attributedTo_def split: option.splits)
qed

lemma attributedTo_Some:
  assumes "attributedTo m vis h = Some v"
  shows "v \<in> set vis \<and> 0 < pairArea m v h \<and> (\<forall>v'\<in>set vis. pairArea m v' h \<le> pairArea m v h)"
  using assms unfolding attributedTo_def by (auto simp: find_Some_iff)

lemma count_fold:
  "fold (countStep best) ks c0 v =
     (let n = length (filter (\<lambda>h. \<exists>a. best h = Some (v, a)) ks)
      in if n = 0 then c0 v else Some ((case c0 v of None \<Rightarrow> 0 | Some k \<Rightarrow> k) + n))"
proof (induction ks arbitrary: c0)
  case Nil
  then show ?case by simp
next
  case (Cons h ks)
  show ?case
  proof (cases "\<exists>a. best h = Some (v, a)")
    case True
    then obtain a where "best h = Some (v, a)" by blast
    then have "countStep best h c0 v = Some ((case c0 v of None \<Rightarrow> 0 | Some k \<Rightarrow> k) + 1)"
      by (simp add: countStep_def)
    with True show ?thesis by (simp add: Cons.IH Let_def)
  next
    case False
    then have "countStep best h c0 v = c0 v"
      by (auto simp: countStep_def split: option.splits)
    with False show ?thesis by (simp add: Cons.IH Let_def)
  qed
qed

lemma ownKeys_count:
  assumes "\<And>h. Q h \<Longrightarrow> best h \<noteq> None"
  shows "length (filter Q (ownKeys best hid)) = card {h \<in> set hid. Q h}"
proof -
  have "length (filter Q (ownKeys best hid)) = card ({h. Q h} \<inter> set (ownKeys best hid))"
    by (simp add: ownKeys_def distinct_length_filter)
  also have "{h. Q h} \<inter> set (ownKeys best hid) = {h \<in> set hid. Q h}"
    using assms by (auto simp: ownKeys_def)
  finally show ?thesis .
qed

lemma buildHiddenCounts_apply:
  "buildHiddenCounts m vis hid v =
     (let n = card {h \<in> set hid. attributedTo m vis h = Some v}
      in if n = 0 then None else Some (n + 1))"
proof -
  let ?best = "hiddenToBestVisible m vis hid"
  let ?Q = "\<lambda>h. \<exists>a. ?best h = Some (v, a)"
  have "length (filter ?Q (ownKeys ?best hid)) = card {h \<in> set hid. ?Q h}"
    by (rule ownKeys_count) auto
  moreover have "{h \<in> set hid. ?Q h} = {h \<in> set hid. attributedTo m vis h = Some v}"
    by (auto simp: hiddenToBestVisible_apply split: option.splits)
  ultimately have n: "length (filter ?Q (ownKeys ?best hid))
      = card {h \<in> set hid. attributedTo m vis h = Some v}"
    by simp
  have "buildHiddenCounts m vis hid v =
      (let n = length (filter ?Q (ownKeys ?best hid))
       in if n = 0 then None else Some (n + 1))"
    by (auto simp: buildHiddenCounts_def addSelf_def count_fold Let_def)
  then show ?thesis unfolding n .
qed

text \<open>
  C2. In the greedy selector, every hidden sensor that has a positive stored overlap area
  with some visible sensor is attributed to a visible sensor; the sensor it is attributed
  to is visible and has the largest such area (the first one in the visible list on a
  tie); the entry of a sensor in \<open>hiddenCountsMap\<close> is the number of hidden sensors
  attributed to it plus one, and a sensor with no attributed hidden sensor has no entry.
\<close>

theorem greedy_hidden_counts_attribution:
  "(\<forall>h\<in>set (filteredOutSensors (filterOverlappingRosesGreedy dataArray rad cur)).
      (\<exists>v\<in>set (filteredInSensors (filterOverlappingRosesGreedy dataArray rad cur)).
          0 < pairArea (intersectMatrixOf dataArray rad) v h) \<longrightarrow>
      attributedTo (intersectMatrixOf dataArray rad)
        (filteredInSensors (filterOverlappingRosesGreedy dataArray rad cur)) h \<noteq> None)
   \<and> (\<forall>h w. attributedTo (intersectMatrixOf dataArray rad)
        (filteredInSensors (filterOverlappingRosesGreedy dataArray rad cur)) h = Some w \<longrightarrow>
      w \<in> set (filteredInSensors (filterOverlappingRosesGreedy dataArray rad cur))
      \<and> 0 < pairArea (intersectMatrixOf dataArray rad) w h
      \<and> (\<forall>v'\<in>set (filteredInSensors (filterOverlappingRosesGreedy dataArray rad cur)).
            pairArea (intersectMatrixOf dataArray rad) v' h
              \<le> pairArea (intersectMatrixOf dataArray rad) w h))
   \<and> hiddenCountsMap (filterOverlappingRosesGreedy dataArray rad cur) v =
       (let n = card {h \<in> set (filteredOutSensors (filterOverlappingRosesGreedy dataArray rad cur)).
                      attributedTo (intersectMatrixOf dataArray rad)
                        (filteredInSensors (filterOverlappingRosesGreedy dataArray rad cur)) h
                      = Some v}
        in if n = 0 then None else Some (n + 1))"
proof -
  let ?m = "intersectMatrixOf dataArray rad"
  let ?r = "filterOverlappingRosesGreedy dataArray rad cur"
  have a: "\<forall>h\<in>set (filteredOutSensors ?r).
      (\<exists>v\<in>set (filteredInSensors ?r). 0 < pairArea ?m v h) \<longrightarrow>
      attributedTo ?m (filteredInSensors ?r) h \<noteq> None"
    using attributedTo_exists by blast
  have b: "\<forall>h w. attributedTo ?m (filteredInSensors ?r) h = Some w \<longrightarrow>
      w \<in> set (filteredInSensors ?r) \<and> 0 < pairArea ?m w h
      \<and> (\<forall>v'\<in>set (filteredInSensors ?r). pairArea ?m v' h \<le> pairArea ?m w h)"
    using attributedTo_Some by blast
  have c: "hiddenCountsMap ?r v =
       (let n = card {h \<in> set (filteredOutSensors ?r).
                      attributedTo ?m (filteredInSensors ?r) h = Some v}
        in if n = 0 then None else Some (n + 1))"
  proof (cases "dataArray = []")
    case True
    then show ?thesis by (simp add: filterOverlappingRosesGreedy_def emptySelection_def)
  next
    case False
    then show ?thesis
      by (simp add: filterOverlappingRosesGreedy_def Let_def buildHiddenCounts_apply)
  qed
  from a b c show ?thesis by blast
qed

theorem greedy_hidden_counts_attribution_witness:
  "attributedTo (intersectMatrixOf [gA, gB] 1) [''a''] ''b'' \<noteq> None
   \<and> hiddenCountsMap (filterOverlappingRosesGreedy [gA, gB] 1 None) ''a'' = Some 2"
proof -
  have pos: "0 < pairArea (intersectMatrixOf [gA, gB] 1) ''a'' ''b''"
    by (simp add: pairArea_ex)
  from greedy_hidden_counts_attribution [of "[gA, gB]" 1 None "''a''"] pos show ?thesis
    by (simp add: greedy_ex exSelection_def)
qed

section \<open>Output reduction of the clustering selector\<close>

lemma flat_simps [simp]: "flat [] = []" "flat ((k, g) # gs) = g @ flat gs"
  by (simp_all add: flat_def)

lemma flat_addToGroup_set: "set (flat (addToGroup key d gs)) = insert d (set (flat gs))"
  by (induction key d gs rule: addToGroup.induct) auto

lemma flat_addToGroup_distinct:
  "distinct (map f (flat gs)) \<Longrightarrow> f d \<notin> f ` set (flat gs) \<Longrightarrow>
   distinct (map f (flat (addToGroup key d gs)))"
  by (induction key d gs rule: addToGroup.induct) (auto simp: flat_addToGroup_set)

lemma addToGroup_nonempty:
  "\<forall>kg\<in>set gs. snd kg \<noteq> [] \<Longrightarrow> \<forall>kg\<in>set (addToGroup key d gs). snd kg \<noteq> []"
  by (induction key d gs rule: addToGroup.induct) auto

lemma groupsUpTo_Suc:
  "groupsUpTo dataArray clusters (Suc n) =
     addToGroup (nthOpt clusters (int n)) (dataArray ! n) (groupsUpTo dataArray clusters n)"
  by (simp add: groupsUpTo_def)

lemma groupsUpTo_props:
  assumes "n \<le> length dataArray"
  shows "set (flat (groupsUpTo dataArray clusters n)) = set (take n dataArray)
    \<and> (\<forall>kg\<in>set (groupsUpTo dataArray clusters n). snd kg \<noteq> [])
    \<and> (distinct (map sensor dataArray) \<longrightarrow>
         distinct (map sensor (flat (groupsUpTo dataArray clusters n))))"
  using assms
proof (induction n)
  case 0
  then show ?case by (simp add: groupsUpTo_def)
next
  case (Suc n)
  then have IH: "set (flat (groupsUpTo dataArray clusters n)) = set (take n dataArray)"
    "\<forall>kg\<in>set (groupsUpTo dataArray clusters n). snd kg \<noteq> []"
    "distinct (map sensor dataArray) \<longrightarrow> distinct (map sensor (flat (groupsUpTo dataArray clusters n)))"
    and n: "n < length dataArray"
    by simp_all
  have a: "set (flat (groupsUpTo dataArray clusters (Suc n))) = set (take (Suc n) dataArray)"
    using n by (simp add: groupsUpTo_Suc flat_addToGroup_set IH(1) take_Suc_conv_app_nth)
  have b: "\<forall>kg\<in>set (groupsUpTo dataArray clusters (Suc n)). snd kg \<noteq> []"
    unfolding groupsUpTo_Suc using IH(2) by (rule addToGroup_nonempty)
  have c: "distinct (map sensor (flat (groupsUpTo dataArray clusters (Suc n))))"
    if d: "distinct (map sensor dataArray)"
  proof -
    have "sensor (dataArray ! n) \<notin> sensor ` set (take n dataArray)"
    proof
      assume "sensor (dataArray ! n) \<in> sensor ` set (take n dataArray)"
      then obtain i where "i < n" "sensor (dataArray ! i) = sensor (dataArray ! n)"
        using n by (auto simp: in_set_conv_nth)
      then have "map sensor dataArray ! i = map sensor dataArray ! n" using n by simp
      moreover have "i < length (map sensor dataArray)" "n < length (map sensor dataArray)"
        using n \<open>i < n\<close> by simp_all
      ultimately have "i = n" using d nth_eq_iff_index_eq by blast
      with \<open>i < n\<close> show False by simp
    qed
    then show ?thesis
      unfolding groupsUpTo_Suc using IH(1,3) d by (intro flat_addToGroup_distinct) auto
  qed
  from a b c show ?case by blast
qed

lemma sensorsByCluster_props:
  "set (flat (sensorsByCluster dataArray clusters)) = set dataArray"
  "\<forall>kg\<in>set (sensorsByCluster dataArray clusters). snd kg \<noteq> []"
  "distinct (map sensor dataArray) \<Longrightarrow>
     distinct (map sensor (flat (sensorsByCluster dataArray clusters)))"
  using groupsUpTo_props [of "length dataArray" dataArray clusters]
  by (simp_all add: sensorsByCluster_def groupsUpTo_def)

lemma closestState_snoc:
  assumes "closestState c first gs acc"
  shows "closestState c first (gs @ [x]) (closerStep c x acc)"
proof (cases "snd acc")
  case None
  with assms have "gs = []" "acc = (first, None)" by (auto simp: closestState_def)
  then show ?thesis by (simp add: closestState_def closerStep_def)
next
  case (Some d)
  with assms obtain b where b: "acc = (b, Some (sensorDistance c b))" "b \<in> set gs"
    "\<forall>g\<in>set gs. sensorDistance c b \<le> sensorDistance c g"
    by (auto simp: closestState_def)
  show ?thesis
  proof (cases "sensorDistance c x < sensorDistance c b")
    case True
    then have "closerStep c x acc = (x, Some (sensorDistance c x))"
      using b(1) by (simp add: closerStep_def)
    moreover have "\<forall>g\<in>set (gs @ [x]). sensorDistance c x \<le> sensorDistance c g"
      using b(3) True by fastforce
    ultimately show ?thesis by (simp add: closestState_def)
  next
    case False
    then have "closerStep c x acc = acc" using b(1) by (simp add: closerStep_def)
    moreover have "\<forall>g\<in>set (gs @ [x]). sensorDistance c b \<le> sensorDistance c g"
      using b(3) False by auto
    ultimately show ?thesis using b(1,2) by (simp add: closestState_def)
  qed
qed

lemma closestState_fold: "closestState c first gs (fold (closerStep c) gs (first, None))"
proof (induction gs rule: rev_induct)
  case Nil
  then show ?case by (simp add: closestState_def)
next
  case (snoc x xs)
  then show ?case by (simp add: closestState_snoc)
qed

lemma bestSensorOf_closest:
  assumes "gs \<noteq> []"
  shows "bestSensorOf c first gs \<in> set gs \<and>
         (\<forall>g\<in>set gs. sensorDistance c (bestSensorOf c first gs) \<le> sensorDistance c g)"
  using closestState_fold [of c first gs] assms
  by (auto simp: closestState_def bestSensorOf_def)

lemma representative_member:
  "representative cs kg = Some s \<Longrightarrow> s \<in> sensor ` set (snd kg)"
proof -
  assume r: "representative cs kg = Some s"
  then obtain first others where g: "snd kg = first # others"
    by (cases "snd kg") (simp_all add: representative_def)
  with r obtain c where c: "centroidAt cs (fst kg) = Some c"
    by (cases "centroidAt cs (fst kg)") (simp_all add: representative_def)
  from r g c have "s = sensor (bestSensorOf c first (snd kg))"
    by (simp add: representative_def)
  moreover have "bestSensorOf c first (snd kg) \<in> set (snd kg)"
    using bestSensorOf_closest [of "snd kg" c first] g by simp
  ultimately show ?thesis by blast
qed

lemma reduceGroups_step:
  assumes "reduceGroups cs (kg # rest) acc = Inr res"
  shows "\<exists>s. representative cs kg = Some s \<and>
     reduceGroups cs rest
       (setAdd s (fst acc),
        if 1 < length (snd kg) then (snd acc)(s \<mapsto> length (snd kg)) else snd acc) = Inr res"
proof -
  obtain k g where kg: "kg = (k, g)" by (cases kg)
  from assms kg obtain first others where g: "g = first # others"
    by (cases g) simp_all
  from assms kg g obtain c where c: "centroidAt cs k = Some c"
    by (cases "centroidAt cs k") simp_all
  have "representative cs kg = Some (sensor (bestSensorOf c first g))"
    by (simp add: representative_def kg g c)
  moreover have "reduceGroups cs rest
       (setAdd (sensor (bestSensorOf c first g)) (fst acc),
        if 1 < length g then (snd acc)(sensor (bestSensorOf c first g) \<mapsto> length g)
        else snd acc) = Inr res"
    using assms unfolding kg g by (auto simp: c Let_def split: if_splits)
  ultimately show ?thesis unfolding kg snd_conv by blast
qed

lemma find_snoc:
  "find P (xs @ [x]) = (case find P xs of None \<Rightarrow> (if P x then Some x else None) | Some y \<Rightarrow> Some y)"
  by (induction xs) auto

lemma find_SomeD: "find P xs = Some x \<Longrightarrow> x \<in> set xs \<and> P x"
  by (induction xs) (auto split: if_splits)

lemma reduceGroups_counts:
  "reduceGroups cs gs acc = Inr res \<Longrightarrow>
   snd res s =
     (case find (\<lambda>kg. representative cs kg = Some s \<and> 1 < length (snd kg)) (rev gs) of
        None \<Rightarrow> snd acc s
      | Some kg \<Rightarrow> Some (length (snd kg)))"
proof (induction gs arbitrary: acc)
  case Nil
  then show ?case by simp
next
  case (Cons kg gs)
  from reduceGroups_step [OF Cons.prems] obtain s' where
    rep: "representative cs kg = Some s'" and
    run: "reduceGroups cs gs
       (setAdd s' (fst acc),
        if 1 < length (snd kg) then (snd acc)(s' \<mapsto> length (snd kg)) else snd acc) = Inr res"
    by blast
  show ?case
    using Cons.IH [OF run] rep
    by (auto simp: find_snoc split: option.splits)
qed

lemma reduceGroups_keep:
  "reduceGroups cs gs acc = Inr res \<Longrightarrow>
   set (fst res) = set (fst acc) \<union> {s. \<exists>kg\<in>set gs. representative cs kg = Some s}"
proof (induction gs arbitrary: acc)
  case Nil
  then show ?case by simp
next
  case (Cons kg gs)
  from reduceGroups_step [OF Cons.prems] obtain s' where
    rep: "representative cs kg = Some s'" and
    run: "reduceGroups cs gs
       (setAdd s' (fst acc),
        if 1 < length (snd kg) then (snd acc)(s' \<mapsto> length (snd kg)) else snd acc) = Inr res"
    by blast
  show ?case
    using Cons.IH [OF run] rep by (auto simp: setAdd_def)
qed

lemma reduceGroups_defined:
  "reduceGroups cs gs acc = Inr res \<Longrightarrow> kg \<in> set gs \<Longrightarrow> representative cs kg \<noteq> None"
proof (induction gs arbitrary: acc)
  case Nil
  then show ?case by simp
next
  case (Cons a gs)
  from reduceGroups_step [OF Cons.prems(1)] obtain s' where
    rep: "representative cs a = Some s'" and
    run: "reduceGroups cs gs
       (setAdd s' (fst acc),
        if 1 < length (snd a) then (snd acc)(s' \<mapsto> length (snd a)) else snd acc) = Inr res"
    by blast
  show ?case
    using Cons.IH [OF run] rep Cons.prems(2) by auto
qed

lemma group_unique:
  "distinct (map f (flat gs)) \<Longrightarrow> p \<in> set gs \<Longrightarrow> q \<in> set gs \<Longrightarrow>
   s \<in> f ` set (snd p) \<Longrightarrow> s \<in> f ` set (snd q) \<Longrightarrow> p = q"
proof (induction gs)
  case Nil
  then show ?case by simp
next
  case (Cons a gs)
  obtain k g where a: "a = (k, g)" by (cases a)
  have in_flat: "\<And>r. r \<in> set gs \<Longrightarrow> f ` set (snd r) \<subseteq> f ` set (flat gs)"
    by (auto simp: flat_def)
  from Cons.prems(1) have d: "distinct (map f (flat gs))" "f ` set g \<inter> f ` set (flat gs) = {}"
    by (auto simp: a)
  show ?case
  proof (cases "p = a")
    case True
    show ?thesis
    proof (cases "q = a")
      case True
      with \<open>p = a\<close> show ?thesis by simp
    next
      case False
      with Cons.prems(3) have "q \<in> set gs" by simp
      with in_flat Cons.prems(5) have "s \<in> f ` set (flat gs)" by blast
      moreover from True Cons.prems(4) have "s \<in> f ` set g" by (simp add: a)
      ultimately show ?thesis using d(2) by blast
    qed
  next
    case False
    with Cons.prems(2) have p: "p \<in> set gs" by simp
    show ?thesis
    proof (cases "q = a")
      case True
      with Cons.prems(5) have "s \<in> f ` set g" by (simp add: a)
      moreover from in_flat p Cons.prems(4) have "s \<in> f ` set (flat gs)" by blast
      ultimately show ?thesis using d(2) by blast
    next
      case False
      with Cons.prems(3) have "q \<in> set gs" by simp
      with Cons.IH d(1) p Cons.prems(4,5) show ?thesis by blast
    qed
  qed
qed

lemma reduceClusters_partition:
  assumes "reduceClusters dataArray clusters centroids = Inr r"
  shows "set (filteredInSensors r) \<union> set (filteredOutSensors r) = set (map sensor dataArray)
       \<and> set (filteredInSensors r) \<inter> set (filteredOutSensors r) = {}"
proof -
  let ?gs = "sensorsByCluster dataArray clusters"
  from assms obtain keep counts where
    run: "reduceGroups centroids ?gs ([], Map.empty) = Inr (keep, counts)"
    and r: "r = \<lparr>filteredOutSensors = filter (\<lambda>s. s \<notin> set keep) (map sensor dataArray),
                 filteredInSensors = keep, hiddenCountsMap = counts\<rparr>"
    by (auto simp: reduceClusters_def split: sum.splits prod.splits)
  have "set keep = {s. \<exists>kg\<in>set ?gs. representative centroids kg = Some s}"
    using reduceGroups_keep [OF run] by simp
  also have "\<dots> \<subseteq> sensor ` set (flat ?gs)"
    using representative_member by (fastforce simp: flat_def)
  finally have "set keep \<subseteq> set (map sensor dataArray)"
    by (simp add: sensorsByCluster_props(1))
  then show ?thesis unfolding r by auto
qed

lemma kmeans_miss:
  assumes "fetchFile pf (cacheFilePathOf filterName) = None"
    and "doClearCache \<or> ls (cacheKeyOf filterName) = None"
  shows "filterOverlappingRosesKmeans pf ls dataArray zoomLevel filterName doClearCache dl
         = computeKmeans pf (if doClearCache then clearCache ls filterName else ls)
             dataArray zoomLevel filterName"
  using assms by (auto simp: filterOverlappingRosesKmeans_def clearCache_def)

lemma computeKmeans_Inr:
  assumes "computeKmeans pf ls dataArray zoomLevel filterName = (Inr r, ls')"
  shows "(dataArray = [] \<and> r = emptySelection \<and> ls' = ls) \<or>
         (dataArray \<noteq> [] \<and> (\<exists>clusters centroids.
            reduceClusters dataArray clusters centroids = Inr r \<and>
            ls' = (if setItemOk pf then ls(cacheKeyOf filterName \<mapsto> stringify pf r) else ls)))"
  using assms
  by (auto simp: computeKmeans_def split: if_splits option.splits prod.splits sum.splits)

lemma reduce_ex: "reduceClusters [gA, gB] [0, 0] [Some (0, 0)] = Inr exSelection"
  by (simp add: reduceClusters_def sensorsByCluster_def nthOpt_def centroidAt_def upt_rec
      bestSensorOf_def closerStep_def sensorDistance_def setAdd_def gA_def gB_def exSelection_def
      Let_def numeral_2_eq_2)

lemma kmeans_ex:
  "filterOverlappingRosesKmeans exPlatform Map.empty [gA, gB] 0 ''p'' False False
     = (Inr exSelection, [''filterCache-p'' \<mapsto> ''cached''])"
  by (simp add: filterOverlappingRosesKmeans_def computeKmeans_def exPlatform_def reduce_ex
      cacheKeyOf_def)

lemma reduce_single:
  "reduceClusters [gA] [0] [Some (0, 0)]
     = Inr \<lparr>filteredOutSensors = [], filteredInSensors = [''a''], hiddenCountsMap = Map.empty\<rparr>"
  by (simp add: reduceClusters_def sensorsByCluster_def nthOpt_def centroidAt_def
      bestSensorOf_def closerStep_def sensorDistance_def setAdd_def gA_def Let_def)

lemma groups_single: "sensorsByCluster [gA] [0] = [(Some 0, [gA])]"
  by (simp add: sensorsByCluster_def nthOpt_def)

lemma groups_pair: "sensorsByCluster [gA, gB] [0, 0] = [(Some 0, [gA, gB])]"
  by (simp add: sensorsByCluster_def nthOpt_def upt_rec)

text \<open>The output reduction returns a result whenever the clustering run hands back one
  assignment per glyph, each the index of a defined centroid.\<close>

lemma addToGroup_keys: "fst ` set (addToGroup key d gs) = insert key (fst ` set gs)"
  by (induction key d gs rule: addToGroup.induct) auto

lemma groupsUpTo_keys:
  "fst ` set (groupsUpTo dataArray clusters n) = (\<lambda>i. nthOpt clusters (int i)) ` {0..<n}"
proof (induction n)
  case 0
  then show ?case by (simp add: groupsUpTo_def)
next
  case (Suc n)
  then show ?case
    by (simp add: groupsUpTo_Suc addToGroup_keys atLeast0_lessThan_Suc)
qed

lemma reduceGroups_total:
  "(\<And>kg. kg \<in> set gs \<Longrightarrow> representative cs kg \<noteq> None) \<Longrightarrow>
   \<exists>res. reduceGroups cs gs acc = Inr res"
proof (induction gs arbitrary: acc)
  case Nil
  then show ?case by simp
next
  case (Cons kg gs)
  obtain k g where kg: "kg = (k, g)" by (cases kg)
  from Cons.prems [of kg] have "representative cs (k, g) \<noteq> None" by (simp add: kg)
  then obtain first others c where g: "g = first # others" and c: "centroidAt cs k = Some c"
    by (auto simp: representative_def split: list.splits option.splits)
  have "\<exists>res. reduceGroups cs gs acc' = Inr res" for acc'
    by (rule Cons.IH) (use Cons.prems in auto)
  then show ?case by (simp add: kg g c Let_def)
qed

lemma reduceClusters_returns:
  assumes "length clusters = length dataArray"
    and "\<And>c. c \<in> set clusters \<Longrightarrow> centroidAt centroids (Some c) \<noteq> None"
  shows "\<exists>r. reduceClusters dataArray clusters centroids = Inr r"
proof -
  let ?gs = "sensorsByCluster dataArray clusters"
  have gs: "?gs = groupsUpTo dataArray clusters (length dataArray)"
    by (simp add: sensorsByCluster_def groupsUpTo_def)
  have "representative centroids kg \<noteq> None" if "kg \<in> set ?gs" for kg
  proof -
    obtain k g where kg: "kg = (k, g)" by (cases kg)
    from that sensorsByCluster_props(2) [of dataArray clusters] have "g \<noteq> []"
      by (auto simp: kg)
    then obtain first others where g: "g = first # others" by (cases g) auto
    from that have "k \<in> fst ` set ?gs" by (force simp: kg)
    then obtain i where "i < length dataArray" "k = nthOpt clusters (int i)"
      unfolding gs groupsUpTo_keys by auto
    with assms(1) have "k = Some (clusters ! i)" "clusters ! i \<in> set clusters"
      by (simp_all add: nthOpt_def)
    with assms(2) have "centroidAt centroids k \<noteq> None" by simp
    then show ?thesis by (auto simp: representative_def kg g)
  qed
  then obtain res where "reduceGroups centroids ?gs ([], Map.empty) = Inr res"
    using reduceGroups_total by blast
  then show ?thesis by (cases res) (simp add: reduceClusters_def)
qed

text \<open>
  C5, as claimed: every final cluster group, also a group of size 1, gets the entry
  \<open>hiddenCountsMap[representative] = group size\<close>. The single glyph \<open>a\<close> in cluster 0 forms
  a group of size 1 whose representative is \<open>a\<close>, and the map returned has no entry for it.
\<close>

theorem kmeans_singleton_group_no_entry:
  "sensorsByCluster [gA] [0] = [(Some 0, [gA])]
   \<and> bestSensorOf (0, 0) gA [gA] = gA
   \<and> (\<exists>r. reduceClusters [gA] [0] [Some (0, 0)] = Inr r \<and> hiddenCountsMap r (sensor gA) = None)"
  by (simp add: reduce_single groups_single bestSensorOf_def closerStep_def)

text \<open>
  C5, amended. When the sensor ids of the input are distinct and the output reduction
  returns, every cluster group has a defined centroid and a representative, which is a
  member of the group closest to the centroid and is among the visible sensors; its entry
  in \<open>hiddenCountsMap\<close> is the size of the group when the group has more than one member,
  and it has no entry when the group has one member.
\<close>

theorem kmeans_hidden_count_entries:
  assumes "reduceClusters dataArray clusters centroids = Inr r"
    and "distinct (map sensor dataArray)"
    and "(clusterIndex, sensorGroup) \<in> set (sensorsByCluster dataArray clusters)"
  shows "\<exists>centroid first others.
     centroidAt centroids clusterIndex = Some centroid \<and> sensorGroup = first # others \<and>
     bestSensorOf centroid first sensorGroup \<in> set sensorGroup \<and>
     (\<forall>g\<in>set sensorGroup.
        sensorDistance centroid (bestSensorOf centroid first sensorGroup) \<le> sensorDistance centroid g) \<and>
     sensor (bestSensorOf centroid first sensorGroup) \<in> set (filteredInSensors r) \<and>
     hiddenCountsMap r (sensor (bestSensorOf centroid first sensorGroup))
       = (if 1 < length sensorGroup then Some (length sensorGroup) else None)"
proof -
  let ?gs = "sensorsByCluster dataArray clusters"
  let ?kg = "(clusterIndex, sensorGroup)"
  from assms(1) obtain keep counts where
    run: "reduceGroups centroids ?gs ([], Map.empty) = Inr (keep, counts)"
    and r: "r = \<lparr>filteredOutSensors = filter (\<lambda>s. s \<notin> set keep) (map sensor dataArray),
                 filteredInSensors = keep, hiddenCountsMap = counts\<rparr>"
    by (auto simp: reduceClusters_def split: sum.splits prod.splits)
  from reduceGroups_defined [OF run assms(3)] obtain s where
    rep: "representative centroids ?kg = Some s" by blast
  then obtain first others where g: "sensorGroup = first # others"
    by (cases sensorGroup) (simp_all add: representative_def)
  with rep obtain c where c: "centroidAt centroids clusterIndex = Some c"
    by (cases "centroidAt centroids clusterIndex") (simp_all add: representative_def)
  let ?b = "bestSensorOf c first sensorGroup"
  have s: "s = sensor ?b" using rep g c by (simp add: representative_def)
  have closest: "?b \<in> set sensorGroup \<and>
      (\<forall>x\<in>set sensorGroup. sensorDistance c ?b \<le> sensorDistance c x)"
    using bestSensorOf_closest [of sensorGroup c first] g by simp
  have kept: "s \<in> set keep"
    using reduceGroups_keep [OF run] rep assms(3) by auto
  let ?P = "\<lambda>kg. representative centroids kg = Some s \<and> 1 < length (snd kg)"
  have dist: "distinct (map sensor (flat ?gs))"
    using assms(2) by (rule sensorsByCluster_props(3))
  have only: "kg = ?kg" if "kg \<in> set ?gs" "representative centroids kg = Some s" for kg
  proof (rule group_unique [OF dist that(1) assms(3)])
    show "s \<in> sensor ` set (snd kg)" using that(2) by (rule representative_member)
    show "s \<in> sensor ` set (snd ?kg)" using rep by (rule representative_member)
  qed
  have cnt: "counts s = (if 1 < length sensorGroup then Some (length sensorGroup) else None)"
  proof (cases "find ?P (rev ?gs)")
    case None
    then have "\<not> ?P ?kg" using assms(3) by (auto simp: find_None_iff)
    with rep have "\<not> 1 < length sensorGroup" by simp
    with None reduceGroups_counts [OF run, of s] show ?thesis by simp
  next
    case (Some kg)
    from find_SomeD [OF this] have "kg \<in> set ?gs" "?P kg" by simp_all
    with only have "kg = ?kg" "1 < length (snd kg)" by auto
    with Some reduceGroups_counts [OF run, of s] show ?thesis by simp
  qed
  from c g closest kept cnt show ?thesis unfolding s r by auto
qed

theorem kmeans_hidden_count_entries_witness:
  "reduceClusters [gA, gB] [0, 0] [Some (0, 0)] = Inr exSelection
   \<and> hiddenCountsMap exSelection ''a'' = Some 2
   \<and> (\<exists>centroid first others.
        centroidAt [Some (0, 0)] (Some 0) = Some centroid \<and> [gA, gB] = first # others \<and>
        hiddenCountsMap exSelection (sensor (bestSensorOf centroid first [gA, gB])) = Some 2)"
proof -
  have d: "distinct (map sensor [gA, gB])" by (simp add: gA_def gB_def)
  have m: "(Some 0, [gA, gB]) \<in> set (sensorsByCluster [gA, gB] [0, 0])"
    by (simp add: groups_pair)
  from kmeans_hidden_count_entries [OF reduce_ex d m] show ?thesis
    by (auto simp: reduce_ex exSelection_def)
qed

section \<open>Partition of the input sensors\<close>

text \<open>
  C1, as claimed: for every input array and for both selectors, the returned visible and
  hidden sensors partition the set of input sensor ids. The clustering selector looks the
  key up in the cache before it reads its input: with the entry computed for the glyphs
  \<open>a\<close> and \<open>b\<close> stored in \<open>localStorage\<close> under the key, a call on the single glyph \<open>c\<close>
  returns that entry, visible \<open>a\<close> and hidden \<open>b\<close>, whose union is not the input set.
\<close>

theorem kmeans_cache_hit_ignores_input:
  "filterOverlappingRosesKmeans exPlatform [''filterCache-p'' \<mapsto> ''cached''] [gC] 0 ''p''
       False False
     = (Inr exSelection, [''filterCache-p'' \<mapsto> ''cached''])
   \<and> set (filteredInSensors exSelection) \<union> set (filteredOutSensors exSelection)
       \<noteq> set (map sensor [gC])"
  by (simp add: filterOverlappingRosesKmeans_def exPlatform_def cacheKeyOf_def exSelection_def
      gC_def)

text \<open>
  C1, amended. For every input array the greedy selector returns visible and hidden
  sensors whose union is the set of input sensor ids and which are disjoint; so does the
  clustering selector whenever it computes its result, that is when the static cache file
  misses and \<open>localStorage\<close> holds no entry for the key or the cache is cleared first, and
  it returns one, whatever the clustering run hands back.
\<close>

theorem selection_partitions_input:
  "set (filteredInSensors (filterOverlappingRosesGreedy dataArray rad cur))
     \<union> set (filteredOutSensors (filterOverlappingRosesGreedy dataArray rad cur))
     = set (map sensor dataArray)
   \<and> set (filteredInSensors (filterOverlappingRosesGreedy dataArray rad cur))
     \<inter> set (filteredOutSensors (filterOverlappingRosesGreedy dataArray rad cur)) = {}
   \<and> (fetchFile pf (cacheFilePathOf filterName) = None \<longrightarrow>
      (doClearCache \<or> ls (cacheKeyOf filterName) = None) \<longrightarrow>
      filterOverlappingRosesKmeans pf ls dataArray zoomLevel filterName doClearCache doDownloadCache
        = (Inr r, ls') \<longrightarrow>
      set (filteredInSensors r) \<union> set (filteredOutSensors r) = set (map sensor dataArray)
      \<and> set (filteredInSensors r) \<inter> set (filteredOutSensors r) = {})"
proof -
  have "set (filteredInSensors r) \<union> set (filteredOutSensors r) = set (map sensor dataArray)
      \<and> set (filteredInSensors r) \<inter> set (filteredOutSensors r) = {}"
    if miss: "fetchFile pf (cacheFilePathOf filterName) = None"
      "doClearCache \<or> ls (cacheKeyOf filterName) = None"
    and run: "filterOverlappingRosesKmeans pf ls dataArray zoomLevel filterName doClearCache
        doDownloadCache = (Inr r, ls')"
  proof -
    from run have "computeKmeans pf (if doClearCache then clearCache ls filterName else ls)
        dataArray zoomLevel filterName = (Inr r, ls')"
      using kmeans_miss [of pf filterName doClearCache ls dataArray zoomLevel doDownloadCache] miss
      by simp
    from computeKmeans_Inr [OF this] show ?thesis
    proof
      assume "dataArray = [] \<and> r = emptySelection \<and>
        ls' = (if doClearCache then clearCache ls filterName else ls)"
      then show ?thesis by (simp add: emptySelection_def)
    next
      assume "dataArray \<noteq> [] \<and> (\<exists>clusters centroids.
        reduceClusters dataArray clusters centroids = Inr r \<and>
        ls' = (if setItemOk pf
               then (if doClearCache then clearCache ls filterName else ls)
                    (cacheKeyOf filterName \<mapsto> stringify pf r)
               else (if doClearCache then clearCache ls filterName else ls)))"
      then obtain clusters centroids where
        "reduceClusters dataArray clusters centroids = Inr r" by blast
      then show ?thesis by (rule reduceClusters_partition)
    qed
  qed
  with greedy_partition [of dataArray rad cur] show ?thesis by blast
qed

theorem selection_partitions_input_witness:
  "set (filteredInSensors exSelection) \<union> set (filteredOutSensors exSelection)
     = set (map sensor [gA, gB])
   \<and> set (filteredInSensors exSelection) \<inter> set (filteredOutSensors exSelection) = {}
   \<and> set (filteredInSensors (filterOverlappingRosesGreedy [gA, gB] 1 None))
     \<union> set (filteredOutSensors (filterOverlappingRosesGreedy [gA, gB] 1 None))
     = set (map sensor [gA, gB])"
proof -
  have a: "fetchFile exPlatform (cacheFilePathOf ''p'') = None" by (simp add: exPlatform_def)
  have b: "False \<or> (Map.empty :: localStorage) (cacheKeyOf ''p'') = None" by simp
  from selection_partitions_input [of "[gA, gB]" 1 None exPlatform "''p''" False Map.empty 0 False exSelection
      "[''filterCache-p'' \<mapsto> ''cached'']"] a b kmeans_ex
  show ?thesis by blast
qed

section \<open>Empty input of the clustering selector\<close>

text \<open>
  C6, as claimed: the clustering selector with a positive cluster count fails loudly on an
  empty glyph array. At zoom level 0 (one cluster), with both cache tiers empty, it
  returns the empty result.
\<close>

theorem kmeans_empty_input_returns_empty:
  "filterOverlappingRosesKmeans exPlatform Map.empty [] 0 ''p'' False False
     = (Inr emptySelection, Map.empty)
   \<and> numClustersOf 0 = 1"
  by (simp add: filterOverlappingRosesKmeans_def computeKmeans_def exPlatform_def numClustersOf_def)

text \<open>
  C6, amended. On an empty glyph array, when neither cache tier holds the key, the
  clustering selector returns the empty result for every zoom level, stores nothing, and
  raises nothing: the same result as the greedy selector on an empty array.
\<close>

theorem kmeans_empty_input_degrades:
  assumes "fetchFile pf (cacheFilePathOf filterName) = None"
    and "doClearCache \<or> ls (cacheKeyOf filterName) = None"
  shows "filterOverlappingRosesKmeans pf ls [] zoomLevel filterName doClearCache doDownloadCache
           = (Inr emptySelection, if doClearCache then clearCache ls filterName else ls)
       \<and> filterOverlappingRosesGreedy [] rad cur = emptySelection"
  using assms
  by (simp add: kmeans_miss [of pf filterName doClearCache ls] computeKmeans_def
      filterOverlappingRosesGreedy_def)

theorem kmeans_empty_input_degrades_witness:
  "filterOverlappingRosesKmeans exPlatform Map.empty [] 0 ''p'' False False
     = (Inr emptySelection, Map.empty)
   \<and> filterOverlappingRosesGreedy [] 1 None = emptySelection"
proof -
  have a: "fetchFile exPlatform (cacheFilePathOf ''p'') = None" by (simp add: exPlatform_def)
  have b: "False \<or> (Map.empty :: localStorage) (cacheKeyOf ''p'') = None" by simp
  from kmeans_empty_input_degrades [OF a b, of 0 False 1 None] show ?thesis by simp
qed

section \<open>Cache round trip\<close>

text \<open>
  C9. When the static file tier misses and a result \<open>r\<close> computed for a non-empty input has
  been written to \<open>localStorage\<close>, the entry under the key is the serialised \<open>r\<close>, and a later
  call with the same \<open>filterName\<close> (any input, any zoom level) returns \<open>r\<close> and leaves the
  store as it is, provided \<open>JSON.parse\<close> inverts \<open>JSON.stringify\<close> on \<open>r\<close> and the
  serialised text is not empty.
\<close>

theorem cache_round_trip:
  assumes "fetchFile pf (cacheFilePathOf filterName) = None"
    and "doClearCache \<or> ls (cacheKeyOf filterName) = None"
    and "dataArray \<noteq> []"
    and "setItemOk pf"
    and "filterOverlappingRosesKmeans pf ls dataArray zoomLevel filterName doClearCache
           doDownloadCache = (Inr r, ls')"
    and "stringify pf r \<noteq> []"
    and "parse pf (stringify pf r) = Some r"
  shows "ls' (cacheKeyOf filterName) = Some (stringify pf r)
       \<and> filterOverlappingRosesKmeans pf ls' dataArray2 zoomLevel2 filterName False doDownloadCache2
           = (Inr r, ls')"
proof -
  from assms(5) have "computeKmeans pf (if doClearCache then clearCache ls filterName else ls)
        dataArray zoomLevel filterName = (Inr r, ls')"
    using kmeans_miss [of pf filterName doClearCache ls dataArray zoomLevel doDownloadCache]
      assms(1,2) by simp
  from computeKmeans_Inr [OF this] assms(3,4)
  have stored: "ls' (cacheKeyOf filterName) = Some (stringify pf r)" by auto
  then show ?thesis
    using assms(1,6,7) by (simp add: filterOverlappingRosesKmeans_def)
qed

theorem cache_round_trip_witness:
  "filterOverlappingRosesKmeans exPlatform Map.empty [gA, gB] 0 ''p'' False False
     = (Inr exSelection, [''filterCache-p'' \<mapsto> ''cached''])
   \<and> filterOverlappingRosesKmeans exPlatform [''filterCache-p'' \<mapsto> ''cached''] [] 3 ''p'' False False
     = (Inr exSelection, [''filterCache-p'' \<mapsto> ''cached''])"
proof -
  have a: "fetchFile exPlatform (cacheFilePathOf ''p'') = None" by (simp add: exPlatform_def)
  have b: "False \<or> (Map.empty :: localStorage) (cacheKeyOf ''p'') = None" by simp
  have c: "[gA, gB] \<noteq> []" by simp
  have d: "setItemOk exPlatform" by (simp add: exPlatform_def)
  have e: "stringify exPlatform exSelection \<noteq> []" by (simp add: exPlatform_def)
  have f: "parse exPlatform (stringify exPlatform exSelection) = Some exSelection"
    by (simp add: exPlatform_def)
  from cache_round_trip [OF a b c d kmeans_ex e f, of "[]" 3 False] kmeans_ex show ?thesis by simp
qed

section \<open>Centroid recompute\<close>

text \<open>
  C3. The claim: the centroid-recompute step returns, for each cluster, the arithmetic mean
  of the points assigned to it, the sum of the members divided by their number.
  \<open>moveCenters\<close> divides each cluster's sum by the number of all data points instead.
  With the points \<open>(0,0)\<close>, \<open>(2,2)\<close> in cluster 0 and \<open>(10,10)\<close> in cluster 1 it returns
  \<open>(2/3, 2/3)\<close> and \<open>(10/3, 10/3)\<close>, while the means of the members are \<open>(1,1)\<close> and
  \<open>(10,10)\<close>.
\<close>

theorem moveCenters_divides_by_data_length:
  "moveCenters [(0, 0), (2, 2), (10, 10)] [Some (0, 0), Some (10, 10)] [0, 0, 1]
     = Some [(2 / 3, 2 / 3), (10 / 3, 10 / 3)]
   \<and> arithmeticMean (members [(0, 0), (2, 2), (10, 10)] [0, 0, 1] 0) = Some (1, 1)
   \<and> arithmeticMean (members [(0, 0), (2, 2), (10, 10)] [0, 0, 1] 1) = Some (10, 10)"
  by (simp add: moveCenters_def arithmeticMean_def members_def nthOpt_def upt_rec
      vectorAdd_def scalarDivide_def)

section \<open>Recombining the partial assignments\<close>

lemma classifyData_append:
  "classifyData (xs @ ys) centers = classifyData xs centers @ classifyData ys centers"
  by (simp add: classifyData_def)

lemma fanIn_in_order:
  "classifiedAfterFanIn data centroids [0, 1] = Some (classifyData data centroids)"
proof -
  have "classifyData (take (length data div 2) data) centroids
          @ classifyData (drop (length data div 2) data) centroids
        = classifyData data centroids"
    by (simp add: classifyData_append [symmetric])
  then show ?thesis
    by (simp add: classifiedAfterFanIn_def splitData_def)
qed

text \<open>
  C4. The claim: for every order in which the classification workers complete, the
  recombined assignment vector lists each point's assignment at the point's own index.
  The answers are pushed in the order of arrival. With the points \<open>(0,0)\<close>, \<open>(10,10)\<close>, the
  same two centroids, and the second worker answering first, the recombined vector is
  \<open>[1, 0]\<close>, while the assignments of the two points are \<open>[0, 1]\<close>.
\<close>

theorem fanIn_follows_completion_order:
  "classifiedAfterFanIn [(0, 0), (10, 10)] [Some (0, 0), Some (10, 10)] [1, 0] = Some [1, 0]
   \<and> classifyData [(0, 0), (10, 10)] [Some (0, 0), Some (10, 10)] = [0, 1]"
  by (simp add: classifiedAfterFanIn_def splitData_def classifyData_def classifyPoint_def
      calcDistance_def mathMin_def indexOf_def)

section \<open>Seeding draws\<close>

text \<open>
  C7. The claim: every centroid chosen by the seeding and by the re-seeding is an element
  of the input point set, the draw over the weighted candidate list being always within
  the bounds of the list. \<open>randomIndex\<close> is called with the length of the list and returns
  a value between \<open>0\<close> and that length, both included. With the points \<open>(0,0)\<close>, \<open>(1,0)\<close>,
  two clusters, a first draw of \<open>0\<close> and a second draw of \<open>0.995\<close>, the candidate list has
  100 entries and the index drawn is 100: the second centroid is undefined. The same draw
  makes \<open>reInitCentroid\<close> return an undefined centroid.
\<close>

theorem seeding_draw_out_of_bounds:
  "smartInit [(0, 0), (1, 0)] 2 (\<lambda>i. if i = 0 then 0 else 199 / 200) = Inr [Some (0, 0), None]
   \<and> reInitCentroid [(0, 0), (1, 0)] [Some (0, 0), Some (0, 0)] (199 / 200) = Inr None
   \<and> (0::real) \<le> 199 / 200 \<and> (199::real) / 200 < 1"
  by (simp add: smartInit_def reInitCentroid_def nthOpt_def weightsOf_def calcDistance_def
      numeral_2_eq_2 drawPoint_def generateWeightedList_def randomIndex_def
      minDistanceToCentroid_def mathMin_def upt_rec)

end
